theory Spec2Isabelle
  imports Complex_Main "HOL-Library.AList"
begin

section \<open>Conventions of the embedding\<close>

text \<open>
  The engine of \<^verbatim>\<open>libs/CRP.py\<close> is a Python class whose methods mutate \<^verbatim>\<open>self\<close>.
  A method becomes a function from the state before the call to the state after it.
  Python exceptions are values of the type \<open>error\<close>; a method that can raise returns
  \<open>error + 'a\<close>, \<open>Inl e\<close> standing for the exception \<open>e\<close>.

  Numbers of type \<^verbatim>\<open>float64\<close> are modelled as real numbers. The module runs under
  \<^verbatim>\<open>np.seterr(all='raise')\<close>, so a logarithm of zero or of a negative number is a
  \<^verbatim>\<open>FloatingPointError\<close>: that branch is part of the model. The rounding of
  \<^verbatim>\<open>float64\<close> is not. The rounding to \<^verbatim>\<open>float32\<close>, which the table of the CRP prior is
  computed in, is.

  Every random draw (\<^verbatim>\<open>np.random.*\<close>, \<^verbatim>\<open>truncnorm.rvs\<close>) is an argument of the function
  that consumes it.
\<close>

datatype error =
    FloatingPointError
  | KeyError
  | ValueError
  | IndexError
  | ZeroDivisionError
  | MemoryError
  | NoReturn

text \<open>\<^verbatim>\<open>EPSILON = np.finfo(np.float64).resolution\<close>, which is \<open>1e-15\<close>.\<close>

definition EPSILON :: real where
  "EPSILON = 1 / 10 ^ 15"

definition log_EPSILON :: real where
  "log_EPSILON = ln EPSILON"

text \<open>\<^verbatim>\<open>np.log\<close> under \<^verbatim>\<open>np.seterr(all='raise')\<close>.\<close>

definition np_log :: "real \<Rightarrow> error + real" where
  "np_log x = (if x \<le> 0 then Inl FloatingPointError else Inr (ln x))"

text \<open>Sequencing of calls that may raise, and an elementwise operation on an array.\<close>

definition ebind :: "error + 'a \<Rightarrow> ('a \<Rightarrow> error + 'b) \<Rightarrow> error + 'b" where
  "ebind m f = (case m of Inl e \<Rightarrow> Inl e | Inr x \<Rightarrow> f x)"

fun emap :: "('a \<Rightarrow> error + 'b) \<Rightarrow> 'a list \<Rightarrow> error + 'b list" where
  "emap f [] = Inr []"
| "emap f (x # xs) = ebind (f x) (\<lambda>y. ebind (emap f xs) (\<lambda>ys. Inr (y # ys)))"

section \<open>The state of the engine\<close>

text \<open>An entry of the data matrix is \<open>0\<close>, \<open>1\<close> or \<^verbatim>\<open>np.nan\<close>.\<close>

datatype obs = Obs0 | Obs1 | NaN

text \<open>
  The fields of \<^verbatim>\<open>self\<close>. The dictionary \<^verbatim>\<open>cells_per_cluster\<close> is an association list
  in insertion order, the order in which Python iterates over it.
\<close>

record crp =
  cells_total :: nat
  muts_total :: nat
  data :: "obs list list"
  alpha_error :: real
  beta_error :: real
  beta_mix_const :: "real \<times> real \<times> real"
  DP_alpha_a :: real
  DP_alpha_b :: real
  DP_alpha :: real
  CRP_prior :: "real list"
  assignment :: "int list"
  parameters :: "real list list"
  cells_per_cluster :: "(int \<times> int) list"
  param_proposal_sd :: "real list"
  params_MH_counter :: "real \<times> real"
  splits_MH_counter :: "nat \<times> nat"
  merge_MH_counter :: "nat \<times> nat"

section \<open>Single precision\<close>

text \<open>
  A conversion to \<^verbatim>\<open>np.float32\<close> rounds to the nearest number with a significand of
  24 bits, a tie going to the even significand. For \<open>x\<close> in the binade
  \<open>[2 ^ e, 2 ^ (e + 1))\<close> these numbers are the multiples of \<open>2 ^ (e - 23)\<close>. The range
  of the exponent is not bounded here: no overflow and no subnormal number.
\<close>

definition round_half_even :: "real \<Rightarrow> int" where
  "round_half_even x =
     (if frac x = 1 / 2 then (if even \<lfloor>x\<rfloor> then \<lfloor>x\<rfloor> else \<lfloor>x\<rfloor> + 1) else round x)"

definition float32 :: "real \<Rightarrow> real" where
  "float32 x =
     (if x = 0 then 0
      else let ulp = 2 powr (real_of_int \<lfloor>log 2 \<bar>x\<bar>\<rfloor> - 23)
           in ulp * real_of_int (round_half_even (x / ulp)))"

text \<open>
  \<^verbatim>\<open>np.log(x, dtype=np.float32)\<close>: the argument is converted to \<^verbatim>\<open>float32\<close> and given to
  the logarithm of single precision, which is the argument \<open>logf\<close> of the model (how
  close it comes to the logarithm is a matter of the platform). The correctly rounded
  one is \<open>\<lambda>x. float32 (ln x)\<close>.
\<close>

definition np_log32 :: "(real \<Rightarrow> real) \<Rightarrow> real \<Rightarrow> error + real" where
  "np_log32 logf x =
     (let x32 = float32 x in if x32 \<le> 0 then Inl FloatingPointError else Inr (logf x32))"

section \<open>The CRP prior\<close>

text \<open>
  \<^verbatim>\<open>log_CRP_prior(n_i, n, a, dtype=np.float32)\<close> is
  \<^verbatim>\<open>np.log(n_i, dtype=dtype) - np.log(n - 1 + a, dtype=dtype)\<close>, for one value of
  \<open>n_i\<close>; the source applies it to an array elementwise. The difference of two numbers
  of single precision is rounded to single precision.
\<close>

definition log_CRP_prior :: "(real \<Rightarrow> real) \<Rightarrow> real \<Rightarrow> real \<Rightarrow> real \<Rightarrow> error + real" where
  "log_CRP_prior logf n_i n a =
     ebind (np_log32 logf n_i) (\<lambda>l_i.
     ebind (np_log32 logf (n - 1 + a)) (\<lambda>l_n. Inr (float32 (l_i - l_n))))"

text \<open>
  \<^verbatim>\<open>init_DP_prior\<close>: the table holds a leading \<open>0\<close>, then the prior of a cluster of
  size \<open>1, ..., cells_total\<close>, then the entry of a new cluster, computed from
  \<open>DP_alpha\<close> in the place of the size. The table is read at \<^verbatim>\<open>CRP_prior[size]\<close> and
  at \<^verbatim>\<open>CRP_prior[-1]\<close>.
\<close>

definition init_DP_prior :: "(real \<Rightarrow> real) \<Rightarrow> crp \<Rightarrow> error + crp" where
  "init_DP_prior logf s =
     (let cl_vals = map real [1..<Suc (cells_total s)] @ [DP_alpha s] in
      ebind (emap (\<lambda>v. log_CRP_prior logf v (real (cells_total s)) (DP_alpha s)) cl_vals)
        (\<lambda>prior. Inr (s\<lparr>CRP_prior := 0 # prior\<rparr>)))"

section \<open>Arithmetic of numpy that can raise\<close>

text \<open>
  A division of numpy floats by zero raises under \<^verbatim>\<open>np.seterr(all='raise')\<close>.
  \<^verbatim>\<open>np.exp\<close> raises when its result underflows; the threshold is a constant of the
  floating-point format (about \<open>-708\<close> for \<^verbatim>\<open>float64\<close>) and is a parameter here.
  The only arguments \<^verbatim>\<open>_normalize_log\<close> gives to \<^verbatim>\<open>np.exp\<close> are differences to the
  maximum, which are never positive, so overflow needs no branch.
\<close>

definition np_div :: "real \<Rightarrow> real \<Rightarrow> error + real" where
  "np_div x y = (if y = 0 then Inl FloatingPointError else Inr (x / y))"

definition np_exp :: "real \<Rightarrow> real \<Rightarrow> error + real" where
  "np_exp exp_min x = (if x < exp_min then Inl FloatingPointError else Inr (exp x))"

definition np_log1p :: "real \<Rightarrow> error + real" where
  "np_log1p x = np_log (1 + x)"

definition np_clip :: "real \<Rightarrow> real \<Rightarrow> real \<Rightarrow> real" where
  "np_clip x lo hi = min (max x lo) hi"

section \<open>Likelihood model\<close>

text \<open>
  \<^verbatim>\<open>_Bernoulli_FN\<close> and \<^verbatim>\<open>_Bernoulli_FP\<close> on one entry. A power of \<^verbatim>\<open>nan\<close> is \<^verbatim>\<open>nan\<close>
  (\<open>None\<close>); numpy's \<open>0 ** 0\<close> is \<open>1\<close>, as is the power of HOL on a natural exponent.
\<close>

fun obs_val :: "obs \<Rightarrow> nat option" where
  "obs_val Obs0 = Some 0"
| "obs_val Obs1 = Some 1"
| "obs_val NaN = None"

definition Bernoulli_FN :: "crp \<Rightarrow> obs \<Rightarrow> real option" where
  "Bernoulli_FN s cell_data =
     map_option (\<lambda>v. (1 - beta_error s) ^ v * beta_error s ^ (1 - v)) (obs_val cell_data)"

definition Bernoulli_FP :: "crp \<Rightarrow> obs \<Rightarrow> real option" where
  "Bernoulli_FP s cell_data =
     map_option (\<lambda>v. (1 - alpha_error s) ^ (1 - v) * alpha_error s ^ v) (obs_val cell_data)"

text \<open>
  One entry of \<^verbatim>\<open>np.log(FN + FP)\<close> in \<^verbatim>\<open>_calc_ll\<close>: \<open>None\<close> is \<^verbatim>\<open>nan\<close>, which
  \<^verbatim>\<open>bn.nansum\<close> skips. The logarithm is taken as it stands in the source: no test of
  its argument comes before it and no handler after it.
\<close>

definition log_mix :: "crp \<Rightarrow> obs \<Rightarrow> real \<Rightarrow> error + real option" where
  "log_mix s x theta =
     (case (Bernoulli_FN s x, Bernoulli_FP s x) of
        (Some fn, Some fp) \<Rightarrow>
          ebind (np_log (theta * fn + (1 - theta) * fp)) (\<lambda>l. Inr (Some l))
      | _ \<Rightarrow> Inr None)"

definition nansum :: "real option list \<Rightarrow> real" where
  "nansum xs = sum_list (map (\<lambda>x. case x of None \<Rightarrow> 0 | Some v \<Rightarrow> v) xs)"

text \<open>
  \<^verbatim>\<open>_calc_ll\<close> for one observation vector \<open>x\<close> (one row of the data, the
  \<^verbatim>\<open>flat\<close> case) and, below, for a matrix of rows (\<^verbatim>\<open>axis=1\<close>). Shapes that do not
  broadcast are a \<^verbatim>\<open>ValueError\<close>.
\<close>

definition calc_ll_flat :: "crp \<Rightarrow> obs list \<Rightarrow> real list \<Rightarrow> nat \<Rightarrow> error + real" where
  "calc_ll_flat s x theta nan_no =
     (if length x \<noteq> length theta then Inl ValueError
      else ebind (emap (\<lambda>(x_m, theta_m). log_mix s x_m theta_m) (zip x theta))
             (\<lambda>logs. Inr (nansum logs + real nan_no * snd (snd (beta_mix_const s)))))"

definition calc_ll :: "crp \<Rightarrow> obs list list \<Rightarrow> real list \<Rightarrow> nat list \<Rightarrow> error + real list" where
  "calc_ll s xs theta nan_no =
     (if length xs \<noteq> length nan_no then Inl ValueError
      else emap (\<lambda>(x, no). calc_ll_flat s x theta no) (zip xs nan_no))"

text \<open>
  \<^verbatim>\<open>log_beta_pdf_short\<close>: the one density with a handler for the failing logarithm.
\<close>

definition log_beta_pdf_short :: "real \<Rightarrow> real \<Rightarrow> real \<Rightarrow> error + real" where
  "log_beta_pdf_short x a b =
     (case ebind (np_log x) (\<lambda>lx. ebind (np_log (1 - x))
              (\<lambda>l1x. Inr ((a - 1) * lx + (b - 1) * l1x))) of
        Inr v \<Rightarrow> Inr v
      | Inl FloatingPointError \<Rightarrow>
          if x = 0 then ebind (np_log EPSILON) (\<lambda>l. Inr ((a - 1) * l))
          else ebind (np_log EPSILON) (\<lambda>l. Inr ((b - 1) * l))
      | Inl e \<Rightarrow> Inl e)"

section \<open>Normalisation in log space\<close>

text \<open>\<^verbatim>\<open>bn.nanargmax\<close>: the index of the first maximum; a \<^verbatim>\<open>ValueError\<close> on no entry.\<close>

fun argmax_from :: "nat \<Rightarrow> real \<Rightarrow> nat \<Rightarrow> real list \<Rightarrow> nat" where
  "argmax_from best bv i [] = best"
| "argmax_from best bv i (x # xs) =
     (if bv < x then argmax_from i x (Suc i) xs else argmax_from best bv (Suc i) xs)"

definition nanargmax :: "real list \<Rightarrow> error + nat" where
  "nanargmax probs = (case probs of [] \<Rightarrow> Inl ValueError | p # ps \<Rightarrow> Inr (argmax_from 0 p 1 ps))"

text \<open>
  \<^verbatim>\<open>_normalize_log\<close>. The body of the \<^verbatim>\<open>try\<close> is \<open>normalize_log_try\<close>; the handler
  catches \<^verbatim>\<open>FloatingPointError\<close> only and reads \<^verbatim>\<open>probs[0]\<close> and \<^verbatim>\<open>probs[1]\<close>.
\<close>

definition normalize_log_try :: "real \<Rightarrow> real list \<Rightarrow> nat \<Rightarrow> error + real list" where
  "normalize_log_try exp_min probs max_i =
     ebind (emap (\<lambda>i. np_exp exp_min (probs ! i - probs ! max_i))
              (filter (\<lambda>i. i \<noteq> max_i) [0..<length probs]))
       (\<lambda>es. ebind (np_log1p (sum_list es))
          (\<lambda>l. Inr (map (\<lambda>p. p - probs ! max_i - l) probs)))"

definition normalize_log :: "real \<Rightarrow> real list \<Rightarrow> error + real list" where
  "normalize_log exp_min probs =
     ebind (nanargmax probs) (\<lambda>max_i.
       case normalize_log_try exp_min probs max_i of
         Inr log_probs_norm \<Rightarrow> Inr log_probs_norm
       | Inl FloatingPointError \<Rightarrow>
           if length probs < 2 then Inl IndexError
           else if probs ! 0 > probs ! 1 then Inr [0, log_EPSILON]
           else Inr [log_EPSILON, 0]
       | Inl e \<Rightarrow> Inl e)"

section \<open>Allocation of a cluster id\<close>

text \<open>
  \<^verbatim>\<open>get_empty_cluster\<close>: \<^verbatim>\<open>min(self._clusters.difference(self.assignment))\<close> with
  \<^verbatim>\<open>_clusters = set(range(cells_total))\<close>. The free ids are listed in increasing order,
  so the minimum is the first; \<^verbatim>\<open>min\<close> of the empty set is a \<^verbatim>\<open>ValueError\<close>.
\<close>

definition free_clusters :: "crp \<Rightarrow> int list" where
  "free_clusters s = filter (\<lambda>c. c \<notin> set (assignment s)) (map int [0..<cells_total s])"

definition get_empty_cluster :: "crp \<Rightarrow> error + int" where
  "get_empty_cluster s = (case free_clusters s of [] \<Rightarrow> Inl ValueError | c # _ \<Rightarrow> Inr c)"

text \<open>
  \<^verbatim>\<open>init_new_cluster\<close>: the row of the new id in \<^verbatim>\<open>parameters\<close> is overwritten with a
  draw from the Beta distribution (\<open>new_params\<close>, the value of \<^verbatim>\<open>_init_cl_params\<close>); the
  state after the call and the id are returned.
\<close>

definition init_new_cluster :: "crp \<Rightarrow> real list \<Rightarrow> error + crp \<times> int" where
  "init_new_cluster s new_params =
     ebind (get_empty_cluster s) (\<lambda>cluster_id.
       if nat cluster_id < length (parameters s)
       then Inr (s\<lparr>parameters := (parameters s)[nat cluster_id := new_params]\<rparr>, cluster_id)
       else Inl IndexError)"

section \<open>Concentration parameter and proposal step sizes\<close>

text \<open>
  \<^verbatim>\<open>update_DP_alpha\<close>. The draws are arguments: \<open>eta\<close> is the value of
  \<^verbatim>\<open>np.random.beta(DP_alpha + 1, n)\<close>, \<open>u\<close> of \<^verbatim>\<open>np.random.random()\<close>, and
  \<open>rgamma shape scale\<close> of \<^verbatim>\<open>np.random.gamma(shape, scale)\<close>. numpy refuses a Beta
  parameter that is not positive and a negative Gamma parameter with a \<^verbatim>\<open>ValueError\<close>.
  \<open>logf\<close> is the logarithm of single precision that the table is rebuilt with.
  \<^verbatim>\<open>if not n\<close> takes \<^verbatim>\<open>cells_total\<close> for \<^verbatim>\<open>None\<close> and for \<open>0\<close>.
\<close>

definition update_DP_alpha ::
  "(real \<Rightarrow> real) \<Rightarrow> crp \<Rightarrow> nat option \<Rightarrow> real \<Rightarrow> real \<Rightarrow> (real \<Rightarrow> real \<Rightarrow> real) \<Rightarrow>
     error + crp" where
  "update_DP_alpha logf s n_arg eta u rgamma =
     (let k = real (length (cells_per_cluster s));
          n = (case n_arg of None \<Rightarrow> cells_total s
               | Some m \<Rightarrow> if m = 0 then cells_total s else m)
      in if DP_alpha s + 1 \<le> 0 \<or> n = 0 then Inl ValueError
         else
           ebind (np_log eta) (\<lambda>log_eta.
           ebind (np_div (DP_alpha_a s + k - 1) (real n * (DP_alpha_b s - log_eta))) (\<lambda>w.
           ebind (np_div w (1 + w)) (\<lambda>pi_eta.
             let shape = (if u < pi_eta then DP_alpha_a s + k else DP_alpha_a s + k - 1);
                 scale = DP_alpha_b s - log_eta
             in if shape < 0 \<or> scale < 0 then Inl ValueError
                else init_DP_prior logf
                       (s\<lparr>DP_alpha := max (rgamma shape scale) (1 + EPSILON)\<rparr>)))))"

text \<open>
  \<^verbatim>\<open>update_MH_std\<close>, with \<open>mult\<close> the factor (\<open>1.5\<close> when the caller gives none).
  In the branch of a high ratio the source evaluates
  \<^verbatim>\<open>self.param_proposal_sd + np.array([0.8, 0.9, 1.])\<close> as a statement: the sum is
  computed and dropped (\<open>unused\<close>), nothing is assigned. The printing and the empty hook
  \<^verbatim>\<open>update_MH_std_model_specific\<close> change no field.
\<close>

definition update_MH_std :: "crp \<Rightarrow> real \<Rightarrow> error + crp" where
  "update_MH_std s mult =
     (case params_MH_counter s of (accepted, declined) \<Rightarrow>
        ebind (np_div (accepted + 1) (accepted + declined + 1)) (\<lambda>ratio.
          let s1 = s\<lparr>params_MH_counter := (0, 0)\<rparr> in
          if ratio < 0.45 then
            ebind (emap (\<lambda>sd. np_div sd mult) (param_proposal_sd s1))
              (\<lambda>sds. Inr (s1\<lparr>param_proposal_sd := map (\<lambda>sd. np_clip sd 0 1) sds\<rparr>))
          else if ratio > 0.55 then
            (let s2 = s1\<lparr>param_proposal_sd :=
                         map (\<lambda>sd. np_clip (sd * mult) 0 1) (param_proposal_sd s1)\<rparr>;
                 unused = (if list_all (\<lambda>sd. sd = 1) (param_proposal_sd s2)
                           then map2 (+) (param_proposal_sd s2) [0.8, 0.9, 1] else [])
             in Inr s2)
          else Inr s1))"

section \<open>The trace of a run\<close>

text \<open>
  The dictionary \<^verbatim>\<open>results\<close>: one entry for each of its keys \<^verbatim>\<open>'ML'\<close>, \<^verbatim>\<open>'MAP'\<close>,
  \<^verbatim>\<open>'DP_alpha'\<close>, \<^verbatim>\<open>'assignments'\<close>, \<^verbatim>\<open>'params'\<close> and \<^verbatim>\<open>'burn_in'\<close> (absent until the
  run sets it). An array is the list of its rows; \<^verbatim>\<open>'params'\<close> has, for every step, a
  list of cluster slots, each a vector over the mutations.
\<close>

record results =
  res_ML :: "real list"
  res_MAP :: "real list"
  res_DP_alpha :: "real list"
  res_assignments :: "int list list"
  res_params :: "real list list list"
  res_burn_in :: "int option"

text \<open>An assignment to \<^verbatim>\<open>arr[i]\<close> with \<open>i\<close> not negative.\<close>

definition set_item :: "'a list \<Rightarrow> nat \<Rightarrow> 'a \<Rightarrow> error + 'a list" where
  "set_item xs i v = (if i < length xs then Inr (xs[i := v]) else Inl IndexError)"

text \<open>An index of numpy into an axis of length \<open>n\<close>: a negative index counts from the end.\<close>

definition np_index :: "nat \<Rightarrow> int \<Rightarrow> error + nat" where
  "np_index n i =
     (if 0 \<le> i \<and> i < int n then Inr (nat i)
      else if - int n \<le> i \<and> i < 0 then Inr (nat (int n + i))
      else Inl IndexError)"

text \<open>
  \<^verbatim>\<open>results['params'].shape[1]\<close>, read off the first step: the array is rectangular.
  (With no step at all the write to \<^verbatim>\<open>results['ML'][step]\<close> has raised before the
  shape is read.)
\<close>

definition shape1 :: "real list list list \<Rightarrow> nat" where
  "shape1 params = (case params of [] \<Rightarrow> 1 | slots # _ \<Rightarrow> length slots)"

text \<open>
  \<^verbatim>\<open>_extend_results_array\<close> appends \<^verbatim>\<open>min(200, size)\<close> zero rows to the five arrays, one
  after the other, in place. An allocation that fails raises \<^verbatim>\<open>MemoryError\<close>, which the
  caller handles; \<open>alloc\<close> says which one fails, if any. The dictionary as the call
  leaves it is returned with the exception, since the arrays before the failing one
  are already replaced.
\<close>

datatype alloc = AllocOK | FailML | FailMAP | FailDP_alpha | FailAssignments | FailParams

definition extend_results_array :: "alloc \<Rightarrow> crp \<Rightarrow> results \<Rightarrow> results \<times> error option" where
  "extend_results_array al s results =
     (let add_size = min 200 (length (res_ML results));
          arr_new = replicate add_size (0::real);
          r1 = results\<lparr>res_ML := res_ML results @ arr_new\<rparr>;
          r2 = r1\<lparr>res_MAP := res_MAP r1 @ arr_new\<rparr>;
          r3 = r2\<lparr>res_DP_alpha := res_DP_alpha r2 @ arr_new\<rparr>;
          r4 = r3\<lparr>res_assignments :=
                    res_assignments r3 @ replicate add_size (replicate (cells_total s) 0)\<rparr>;
          r5 = r4\<lparr>res_params :=
                    res_params r4 @
                    replicate add_size
                      (replicate (shape1 (res_params r4)) (replicate (muts_total s) 0))\<rparr>
      in case al of
           FailML \<Rightarrow> (results, Some MemoryError)
         | FailMAP \<Rightarrow> (r1, Some MemoryError)
         | FailDP_alpha \<Rightarrow> (r2, Some MemoryError)
         | FailAssignments \<Rightarrow> (r3, Some MemoryError)
         | FailParams \<Rightarrow> (r4, Some MemoryError)
         | AllocOK \<Rightarrow> (r5, None))"

text \<open>
  \<^verbatim>\<open>results['params'][step][clusters] = self.parameters[clusters]\<close>: the right-hand
  side is read first, then the row of the step, then every slot is written. Each of
  the three can raise \<^verbatim>\<open>IndexError\<close>.
\<close>

definition write_params ::
  "crp \<Rightarrow> real list list list \<Rightarrow> nat \<Rightarrow> int list \<Rightarrow> error + real list list list" where
  "write_params s params step clusters =
     ebind (emap (\<lambda>c. ebind (np_index (length (parameters s)) c)
                         (\<lambda>j. Inr (parameters s ! j))) clusters) (\<lambda>rows.
       if step < length params then
         ebind (emap (np_index (length (params ! step))) clusters) (\<lambda>idx.
           Inr (params[step := fold (\<lambda>(j, row) slots. slots[j := row]) (zip idx rows)
                                  (params ! step)]))
       else Inl IndexError)"

definition list_max :: "int list \<Rightarrow> error + int" where
  "list_max xs = (case xs of [] \<Rightarrow> Inl ValueError | x # r \<Rightarrow> Inr (fold max r x))"

text \<open>
  \<^verbatim>\<open>update_MCMC_results\<close>. The values \<open>ll\<close> and \<open>lpost\<close> are those of
  \<^verbatim>\<open>get_ll_full()\<close> and of \<^verbatim>\<open>ll + get_lprior()\<close>, computed before the trace is touched.
  \<open>record_ML\<close> is the first \<^verbatim>\<open>try\<close> with its handlers and gives the dictionary and the
  step to go on with; \<open>record_params\<close> is the second one, where \<^verbatim>\<open>np.pad\<close> refuses a
  negative width with a \<^verbatim>\<open>ValueError\<close>.
\<close>

definition record_ML :: "alloc \<Rightarrow> crp \<Rightarrow> real \<Rightarrow> results \<Rightarrow> nat \<Rightarrow> error + results \<times> nat" where
  "record_ML al s ll results step =
     (case set_item (res_ML results) step ll of
        Inr arr \<Rightarrow> Inr (results\<lparr>res_ML := arr\<rparr>, step)
      | Inl IndexError \<Rightarrow>
          (case extend_results_array al s results of (results1, exc) \<Rightarrow>
             ebind (case exc of
                      None \<Rightarrow> Inr step
                    | Some MemoryError \<Rightarrow>
                        if length (res_ML results1) = 0 then Inl ZeroDivisionError
                        else Inr (step mod length (res_ML results1))
                    | Some e \<Rightarrow> Inl e) (\<lambda>step1.
             ebind (set_item (res_ML results1) step1 ll) (\<lambda>arr.
               Inr (results1\<lparr>res_ML := arr\<rparr>, step1))))
      | Inl e \<Rightarrow> Inl e)"

definition record_params :: "crp \<Rightarrow> results \<Rightarrow> nat \<Rightarrow> error + results" where
  "record_params s results step =
     (let clusters = map fst (cells_per_cluster s) in
      case write_params s (res_params results) step clusters of
        Inr params \<Rightarrow> Inr (results\<lparr>res_params := params\<rparr>)
      | Inl IndexError \<Rightarrow>
          ebind (list_max clusters) (\<lambda>m.
            let cl_diff = m - int (shape1 (res_params results)) + 1 in
            if cl_diff < 0 then Inl ValueError
            else
              let padded = map (\<lambda>slots. slots @ replicate (nat cl_diff)
                                  (replicate (muts_total s) 0)) (res_params results)
              in ebind (write_params s padded step clusters)
                   (\<lambda>params. Inr (results\<lparr>res_params := params\<rparr>)))
      | Inl e \<Rightarrow> Inl e)"

definition update_MCMC_results ::
  "alloc \<Rightarrow> crp \<Rightarrow> real \<Rightarrow> real \<Rightarrow> results \<Rightarrow> nat \<Rightarrow> error + results" where
  "update_MCMC_results al s ll lpost results step =
     ebind (record_ML al s ll results step) (\<lambda>(r1, step1).
     ebind (set_item (res_MAP r1) step1 lpost) (\<lambda>arr_MAP.
     ebind (set_item (res_assignments r1) step1 (assignment s)) (\<lambda>arr_assignments.
     ebind (set_item (res_DP_alpha r1) step1 (DP_alpha s)) (\<lambda>arr_DP_alpha.
       record_params s
         (r1\<lparr>res_MAP := arr_MAP, res_assignments := arr_assignments,
             res_DP_alpha := arr_DP_alpha\<rparr>) step1))))"

text \<open>
  \<^verbatim>\<open>init_MCMC_results\<close>: \<^verbatim>\<open>np.zeros\<close> refuses a negative length with a
  \<^verbatim>\<open>ValueError\<close>; the state at the start is recorded as step \<open>0\<close>.
\<close>

definition init_MCMC_results ::
  "alloc \<Rightarrow> crp \<Rightarrow> real \<Rightarrow> real \<Rightarrow> int \<Rightarrow> error + results" where
  "init_MCMC_results al s ll lpost steps =
     (if steps < 0 then Inl ValueError
      else
        let n = nat steps;
            results = \<lparr>res_ML = replicate n 0, res_MAP = replicate n 0,
                       res_DP_alpha = replicate n 0,
                       res_assignments = replicate n (replicate (cells_total s) 0),
                       res_params = replicate n [replicate (muts_total s) 0],
                       res_burn_in = None\<rparr>
        in update_MCMC_results al s ll lpost results 0)"

section \<open>The run with a fixed number of steps\<close>

text \<open>
  \<^verbatim>\<open>stdout_MCMC_progress\<close> prints and resets the counter of the parameter proposals.
  \<^verbatim>\<open>int\<close> of a float truncates towards zero.
\<close>

definition stdout_MCMC_progress :: "crp \<Rightarrow> crp" where
  "stdout_MCMC_progress s = s\<lparr>params_MH_counter := (0, 0)\<rparr>"

definition py_int :: "real \<Rightarrow> int" where
  "py_int x = (if 0 \<le> x then \<lfloor>x\<rfloor> else \<lceil>x\<rceil>)"

text \<open>
  The loop of \<^verbatim>\<open>_run_MCMC_steps\<close> over \<^verbatim>\<open>range(1, steps)\<close>. Its arguments stand for what
  the loop calls: \<open>do_step step\<close> is \<^verbatim>\<open>do_MCMC_step\<close> with the draws of that iteration,
  \<open>lls\<close> gives the log likelihood and the log posterior of a state, and \<open>alloc step\<close>
  the fate of an allocation in that iteration. The modulus of the progress test is
  computed before \<^verbatim>\<open>not silent\<close> is looked at, and a modulus by \<open>0\<close> raises.
\<close>

fun MCMC_steps_loop ::
  "(nat \<Rightarrow> crp \<Rightarrow> error + crp) \<Rightarrow> (crp \<Rightarrow> real \<times> real) \<Rightarrow> (nat \<Rightarrow> alloc) \<Rightarrow> bool \<Rightarrow> nat \<Rightarrow>
     nat list \<Rightarrow> crp \<Rightarrow> results \<Rightarrow> error + crp \<times> results" where
  "MCMC_steps_loop do_step lls al silent steps [] s results = Inr (s, results)"
| "MCMC_steps_loop do_step lls al silent steps (step # rest) s results =
     (if steps div 10 = 0 then Inl ZeroDivisionError
      else
        let s1 = (if step mod (steps div 10) = 0 \<and> \<not> silent
                  then stdout_MCMC_progress s else s)
        in case do_step step s1 of
             Inl e \<Rightarrow> Inl e
           | Inr s2 \<Rightarrow>
               (case update_MCMC_results (al step) s2 (fst (lls s2)) (snd (lls s2)) results step of
                  Inl e \<Rightarrow> Inl e
                | Inr results' \<Rightarrow> MCMC_steps_loop do_step lls al silent steps rest s2 results'))"

text \<open>
  \<^verbatim>\<open>_run_MCMC_steps(steps, burn_in, sm_prob, dpa_prob, silent)\<close>; the two probabilities
  are used by \<^verbatim>\<open>do_MCMC_step\<close> only. The engine after the run is returned with the trace.
\<close>

definition run_MCMC_steps ::
  "(nat \<Rightarrow> crp \<Rightarrow> error + crp) \<Rightarrow> (crp \<Rightarrow> real \<times> real) \<Rightarrow> (nat \<Rightarrow> alloc) \<Rightarrow> crp \<Rightarrow>
     int \<Rightarrow> real \<Rightarrow> bool \<Rightarrow> error + crp \<times> results" where
  "run_MCMC_steps do_step lls al s steps0 burn_in silent =
     (let steps = steps0 + 1 in
      ebind (init_MCMC_results (al 0) s (fst (lls s)) (snd (lls s)) steps) (\<lambda>results.
      ebind (MCMC_steps_loop do_step lls al silent (nat steps) [1..<nat steps] s results)
        (\<lambda>(s', results').
           Inr (s', results'\<lparr>res_burn_in := Some (py_int (real_of_int steps * burn_in))\<rparr>))))"

section \<open>Well-formed traces and states\<close>

text \<open>
  The five arrays of a trace have the same number of steps and \<^verbatim>\<open>'params'\<close> is
  rectangular: \<^verbatim>\<open>init_MCMC_results\<close> builds them so. A state can be recorded when the
  keys of \<^verbatim>\<open>cells_per_cluster\<close> are row numbers of \<^verbatim>\<open>parameters\<close>.
\<close>

definition trace_steps :: "results \<Rightarrow> nat \<Rightarrow> bool" where
  "trace_steps r n \<longleftrightarrow>
     length (res_ML r) = n \<and> length (res_MAP r) = n \<and> length (res_DP_alpha r) = n \<and>
     length (res_assignments r) = n \<and> length (res_params r) = n \<and>
     list_all (\<lambda>slots. length slots = shape1 (res_params r)) (res_params r)"

definition recordable :: "crp \<Rightarrow> bool" where
  "recordable s \<longleftrightarrow>
     list_all (\<lambda>c. 0 \<le> c \<and> c < int (length (parameters s))) (map fst (cells_per_cluster s))"

section \<open>The cluster table\<close>

text \<open>
  The operations of Python on the dictionary \<^verbatim>\<open>cells_per_cluster\<close>: a read of a key
  that is absent is a \<^verbatim>\<open>KeyError\<close>, \<^verbatim>\<open>d[k] = v\<close> replaces the value in place or appends
  a new entry (\<open>AList.update\<close>), \<^verbatim>\<open>del d[k]\<close> removes the entry (\<open>AList.delete\<close>).
\<close>

definition dict_get :: "(int \<times> int) list \<Rightarrow> int \<Rightarrow> error + int" where
  "dict_get d k = (case map_of d k of None \<Rightarrow> Inl KeyError | Some v \<Rightarrow> Inr v)"

definition dict_del :: "(int \<times> int) list \<Rightarrow> int \<Rightarrow> error + (int \<times> int) list" where
  "dict_del d k = (case map_of d k of None \<Rightarrow> Inl KeyError | Some v \<Rightarrow> Inr (AList.delete k d))"

text \<open>\<^verbatim>\<open>np.argwhere(self.assignment == c).flatten()\<close>: the cells of cluster \<open>c\<close>, in order.\<close>

definition argwhere :: "int list \<Rightarrow> int \<Rightarrow> nat list" where
  "argwhere asg c = filter (\<lambda>i. asg ! i = c) [0..<length asg]"

text \<open>\<^verbatim>\<open>self.assignment[cells] = c\<close> for an array of cell numbers.\<close>

definition assign_cells :: "int list \<Rightarrow> nat list \<Rightarrow> int \<Rightarrow> error + int list" where
  "assign_cells asg cells c =
     (if list_all (\<lambda>i. i < length asg) cells then Inr (fold (\<lambda>i a. a[i := c]) cells asg)
      else Inl IndexError)"

text \<open>\<^verbatim>\<open>self.parameters[c] = row\<close>.\<close>

definition set_parameters :: "crp \<Rightarrow> int \<Rightarrow> real list \<Rightarrow> error + crp" where
  "set_parameters s c row =
     ebind (np_index (length (parameters s)) c)
       (\<lambda>j. Inr (s\<lparr>parameters := (parameters s)[j := row]\<rparr>))"

section \<open>The Gibbs sweep\<close>

text \<open>
  The body of the loop of \<^verbatim>\<open>update_assignments_Gibbs\<close> for one cell. The posterior
  of the cell over the clusters, its normalisation and \<^verbatim>\<open>np.random.choice\<close> are the
  argument \<open>pick\<close>: \<open>pick cell_id candidates\<close> is the element of
  \<^verbatim>\<open>np.append(cluster_ids, -1)\<close> that is drawn. \<open>draw cell_id\<close> is the parameter
  vector \<^verbatim>\<open>_init_cl_params\<close> draws for a new cluster of that cell.
\<close>

definition Gibbs_cell ::
  "(nat \<Rightarrow> int list \<Rightarrow> int) \<Rightarrow> (nat \<Rightarrow> real list) \<Rightarrow> crp \<Rightarrow> nat \<Rightarrow> error + crp" where
  "Gibbs_cell pick draw s cell_id =
     (if length (assignment s) \<le> cell_id then Inl IndexError
      else
        let old_cluster = assignment s ! cell_id in
        ebind (dict_get (cells_per_cluster s) old_cluster) (\<lambda>size.
          let table = (if size = 1 then AList.delete old_cluster (cells_per_cluster s)
                       else AList.update old_cluster (size - 1) (cells_per_cluster s));
              s1 = s\<lparr>cells_per_cluster := table,
                     assignment := (assignment s)[cell_id := - 1]\<rparr>;
              cluster_ids = map fst table;
              new_cluster_id = pick cell_id (cluster_ids @ [- 1])
          in ebind (if new_cluster_id = - 1
                    then ebind (init_new_cluster s1 (draw cell_id)) (\<lambda>(s2, c).
                           Inr (s2\<lparr>cells_per_cluster :=
                                      AList.update c 0 (cells_per_cluster s2)\<rparr>, c))
                    else Inr (s1, new_cluster_id)) (\<lambda>(s3, c).
             ebind (dict_get (cells_per_cluster s3) c) (\<lambda>size'.
               Inr (s3\<lparr>assignment := (assignment s3)[cell_id := c],
                       cells_per_cluster := AList.update c (size' + 1) (cells_per_cluster s3)\<rparr>)))))"



section \<open>The split and the merge move\<close>

text \<open>
  What a split move draws and what the restricted Gibbs sampler \<^verbatim>\<open>run_rg_nc\<close> returns:
  the successive draws of the cluster (the source draws again while the cluster has a
  single cell), the two cells, the decision, the side of every other cell of the
  cluster, the two parameter vectors, and the proposals that the scans have added to
  \<^verbatim>\<open>params_MH_counter\<close>.
\<close>

record split_draws =
  sp_clusters :: "int list"
  sp_obs_i :: nat
  sp_obs_j :: nat
  sp_accept :: bool
  sp_assignment :: "int list"
  sp_params :: "real list \<times> real list"
  sp_counted :: "real \<times> real"

text \<open>
  The loop \<^verbatim>\<open>while len(clust_i_idx) == 1\<close>: the first draw of a cluster that has not a
  single cell. The list of draws is the fuel: a loop that has used it up has not
  returned.
\<close>

fun draw_split_cluster :: "int list \<Rightarrow> int list \<Rightarrow> error + int" where
  "draw_split_cluster asg [] = Inl NoReturn"
| "draw_split_cluster asg (clust_i # rest) =
     (if length (argwhere asg clust_i) = 1 then draw_split_cluster asg rest else Inr clust_i)"

text \<open>
  \<^verbatim>\<open>do_split_move\<close>. \<^verbatim>\<open>np.random.choice\<close> refuses to draw from no cluster and to draw
  two cells out of none with a \<^verbatim>\<open>ValueError\<close>.
\<close>

definition do_split_move :: "split_draws \<Rightarrow> crp \<Rightarrow> error + crp" where
  "do_split_move dr s =
     (if cells_per_cluster s = [] then Inl ValueError
      else
        ebind (draw_split_cluster (assignment s) (sp_clusters dr)) (\<lambda>clust_i.
          if length (argwhere (assignment s) clust_i) < 2 then Inl ValueError
          else
            let obs_i = sp_obs_i dr; obs_j = sp_obs_j dr;
                S = filter (\<lambda>k. k \<noteq> obs_i \<and> k \<noteq> obs_j) (argwhere (assignment s) clust_i);
                s0 = s\<lparr>params_MH_counter :=
                         (fst (params_MH_counter s) + fst (sp_counted dr),
                          snd (params_MH_counter s) + snd (sp_counted dr))\<rparr>
            in if sp_accept dr then
                 let s1 = s0\<lparr>splits_MH_counter :=
                               (fst (splits_MH_counter s0) + 1, snd (splits_MH_counter s0))\<rparr>
                 in ebind (get_empty_cluster s1) (\<lambda>new_cluster.
                    ebind (set_parameters s1 clust_i (fst (sp_params dr))) (\<lambda>s2.
                    ebind (set_parameters s2 new_cluster (snd (sp_params dr))) (\<lambda>s3.
                    ebind (emap (\<lambda>k. if k < length S then Inr (S ! k) else Inl IndexError)
                            (filter (\<lambda>k. sp_assignment dr ! k = 1)
                               [0..<length (sp_assignment dr)])) (\<lambda>moved.
                      let new_cluster_cells = moved @ [obs_j] in
                      ebind (assign_cells (assignment s3) new_cluster_cells new_cluster) (\<lambda>asg.
                        let table = AList.update new_cluster (int (length new_cluster_cells))
                                      (cells_per_cluster s3)
                        in ebind (dict_get table clust_i) (\<lambda>size.
                             Inr (s3\<lparr>assignment := asg,
                                     cells_per_cluster :=
                                       AList.update clust_i
                                         (size - int (length new_cluster_cells)) table\<rparr>)))))))
               else Inr (s0\<lparr>splits_MH_counter :=
                              (fst (splits_MH_counter s0), snd (splits_MH_counter s0) + 1)\<rparr>)))"

text \<open>
  What a merge move draws and what \<^verbatim>\<open>run_rg_nc\<close> returns: the two clusters, the
  decision, the parameter vector of the merged cluster and the counted proposals.
\<close>

record merge_draws =
  mg_cl_i :: int
  mg_cl_j :: int
  mg_accept :: bool
  mg_params :: "real list"
  mg_counted :: "real \<times> real"

text \<open>
  \<^verbatim>\<open>do_merge_move\<close>. Two clusters cannot be drawn without replacement from fewer than
  two, nor a cell from a cluster without cells: a \<^verbatim>\<open>ValueError\<close>.
\<close>

definition do_merge_move :: "merge_draws \<Rightarrow> crp \<Rightarrow> error + crp" where
  "do_merge_move dr s =
     (if length (cells_per_cluster s) < 2 then Inl ValueError
      else
        let cl_i = mg_cl_i dr; cl_j = mg_cl_j dr;
            cl_i_cells = argwhere (assignment s) cl_i;
            cl_j_cells = argwhere (assignment s) cl_j
        in if cl_i_cells = [] \<or> cl_j_cells = [] then Inl ValueError
           else
             let s0 = s\<lparr>params_MH_counter :=
                          (fst (params_MH_counter s) + fst (mg_counted dr),
                           snd (params_MH_counter s) + snd (mg_counted dr))\<rparr>
             in if mg_accept dr then
                  let s1 = s0\<lparr>merge_MH_counter :=
                                (fst (merge_MH_counter s0) + 1, snd (merge_MH_counter s0))\<rparr>
                  in ebind (set_parameters s1 cl_i (mg_params dr)) (\<lambda>s2.
                     ebind (assign_cells (assignment s2) cl_j_cells cl_i) (\<lambda>asg.
                     ebind (dict_get (cells_per_cluster s2) cl_i) (\<lambda>size.
                       let table = AList.update cl_i (size + int (length cl_j_cells))
                                     (cells_per_cluster s2)
                       in ebind (dict_del table cl_j) (\<lambda>table'.
                            Inr (s2\<lparr>assignment := asg, cells_per_cluster := table'\<rparr>)))))
                else Inr (s0\<lparr>merge_MH_counter :=
                               (fst (merge_MH_counter s0), snd (merge_MH_counter s0) + 1)\<rparr>))"

section \<open>Consistency of the cluster state\<close>







section \<open>An engine to evaluate on\<close>

text \<open>
  The engine that \<^verbatim>\<open>__init__\<close> builds on a data matrix of four cells and three
  mutations with the default arguments (a uniform Beta prior, error rates \<open>EPSILON\<close>,
  all cells in cluster \<open>0\<close>), for one value of its draws.
\<close>

definition example_engine :: crp where
  "example_engine =
     \<lparr>cells_total = 4, muts_total = 3,
      data = [[Obs1, Obs0, NaN], [Obs1, Obs1, Obs0], [Obs0, Obs0, Obs1], [Obs0, NaN, Obs1]],
      alpha_error = EPSILON, beta_error = EPSILON,
      beta_mix_const = (1 / 2, 1 / 2, ln (1 / 2)),
      DP_alpha_a = ln 4, DP_alpha_b = 1, DP_alpha = 2,
      CRP_prior = 0 # map (\<lambda>v. ln v - ln 5) [1, 2, 3, 4, 2],
      assignment = [0, 0, 0, 0],
      parameters = [[1 / 2, 1 / 2, 1 / 2], [0, 0, 0], [0, 0, 0], [0, 0, 0]],
      cells_per_cluster = [(0, 4)],
      param_proposal_sd = [0.1, 0.25, 0.5],
      params_MH_counter = (0, 0), splits_MH_counter = (0, 0), merge_MH_counter = (0, 0)\<rparr>"

section \<open>Properties\<close>

subsection \<open>Helper lemmas\<close>

lemma ebind_Inr [simp]: "ebind (Inr x) f = f x"
  by (simp add: ebind_def)

lemma ebind_Inl [simp]: "ebind (Inl e) f = Inl e"
  by (simp add: ebind_def)

lemma emap_all_Inr:
  assumes "\<And>x. x \<in> set xs \<Longrightarrow> f x = Inr (g x)"
  shows "emap f xs = Inr (map g xs)"
  using assms by (induction xs) simp_all

lemma ebind_eq_Inr: "ebind m f = Inr y \<longleftrightarrow> (\<exists>x. m = Inr x \<and> f x = Inr y)"
  by (cases m) simp_all

lemma emap_Inr_iff: "(\<exists>ys. emap f xs = Inr ys) \<longleftrightarrow> (\<forall>x \<in> set xs. \<exists>y. f x = Inr y)"
  by (induction xs) (auto simp: ebind_eq_Inr)

subsection \<open>Single precision\<close>

lemma round_half_even_error: "\<bar>real_of_int (round_half_even y) - y\<bar> \<le> 1 / 2"
proof (cases "frac y = 1 / 2")
  case True
  then have "y = real_of_int \<lfloor>y\<rfloor> + 1 / 2"
    by (simp add: frac_def)
  then show ?thesis
    using True by (simp add: round_half_even_def)
next
  case False
  then show ?thesis
    using of_int_round_abs_le [of y] by (simp add: round_half_even_def)
qed

lemma round_half_even_of_int [simp]: "round_half_even (real_of_int k) = k"
  by (simp add: round_half_even_def)

lemma float32_binade:
  assumes "x \<noteq> 0"
  shows "2 powr real_of_int \<lfloor>log 2 \<bar>x\<bar>\<rfloor> \<le> \<bar>x\<bar>"
proof -
  have "2 powr real_of_int \<lfloor>log 2 \<bar>x\<bar>\<rfloor> \<le> 2 powr log 2 \<bar>x\<bar>"
    by (intro powr_mono) simp_all
  also have "\<dots> = \<bar>x\<bar>"
    using assms by simp
  finally show ?thesis .
qed

text \<open>The relative error of a rounding to single precision is at most \<open>2 ^ - 24\<close>.\<close>

lemma float32_error: "\<bar>float32 x - x\<bar> \<le> \<bar>x\<bar> / 2 ^ 24"
proof (cases "x = 0")
  case True
  then show ?thesis by (simp add: float32_def)
next
  case False
  define e where "e = \<lfloor>log 2 \<bar>x\<bar>\<rfloor>"
  define ulp where "ulp = 2 powr (real_of_int e - 23)"
  have ulp: "0 < ulp"
    by (simp add: ulp_def)
  have fl: "float32 x = ulp * real_of_int (round_half_even (x / ulp))"
    using False by (simp add: float32_def Let_def ulp_def e_def)
  have "float32 x - x = ulp * (real_of_int (round_half_even (x / ulp)) - x / ulp)"
    using ulp by (simp add: fl algebra_simps)
  then have "\<bar>float32 x - x\<bar> = ulp * \<bar>real_of_int (round_half_even (x / ulp)) - x / ulp\<bar>"
    using ulp by (simp add: abs_mult)
  also have "\<dots> \<le> ulp * (1 / 2)"
    using ulp round_half_even_error [of "x / ulp"] by (intro mult_left_mono) simp_all
  also have "ulp = 2 powr real_of_int e / 2 ^ 23"
    by (simp add: ulp_def powr_diff)
  also have "2 powr real_of_int e / 2 ^ 23 * (1 / 2) = 2 powr real_of_int e / 2 ^ 24"
    by simp
  also have "\<dots> \<le> \<bar>x\<bar> / 2 ^ 24"
    using float32_binade [OF False] by (simp add: e_def divide_right_mono)
  finally show ?thesis .
qed

lemma float32_pos:
  assumes "0 < x"
  shows "0 < float32 x"
proof -
  have "x / 2 ^ 24 < x"
    using assms by (simp add: field_simps)
  moreover have "\<bar>float32 x - x\<bar> \<le> x / 2 ^ 24"
    using float32_error [of x] assms by simp
  ultimately show ?thesis
    by linarith
qed

text \<open>A natural number below \<open>2 ^ 24\<close> is a number of single precision.\<close>

lemma float32_of_nat:
  assumes "1 \<le> n" and "n < 2 ^ 24"
  shows "float32 (real n) = real n"
proof -
  define e where "e = \<lfloor>log 2 (real n)\<rfloor>"
  have "log 2 (real n) < 24"
    using log2_of_power_less [of n 24] assms by simp
  then have e23: "e \<le> 23"
    by (simp add: e_def floor_le_iff)
  define k where "k = nat (23 - e)"
  have ek: "real_of_int e - 23 = - real k"
    using e23 by (simp add: k_def)
  have ulp: "2 powr (real_of_int e - 23) = 1 / 2 ^ k"
    by (simp only: ek powr_minus) (simp add: powr_realpow inverse_eq_divide)
  have "real n / (1 / 2 ^ k) = real_of_int (int n * 2 ^ k)"
    by simp
  then have "round_half_even (real n / (1 / 2 ^ k)) = int n * 2 ^ k"
    by (simp only: round_half_even_of_int)
  then show ?thesis
    using assms by (simp add: float32_def Let_def e_def [symmetric] ulp)
qed

text \<open>From \<open>8\<close> on, the numbers of single precision are multiples of \<open>2 ^ - 20\<close>.\<close>

lemma float32_grid:
  assumes "8 \<le> y"
  shows "\<exists>k::int. float32 y = real_of_int k / 2 ^ 20"
proof -
  define e where "e = \<lfloor>log 2 y\<rfloor>"
  have y: "0 < y"
    using assms by simp
  have "(2::real) powr 3 \<le> y"
    using assms by simp
  then have "3 \<le> log 2 y"
    using y by (simp add: le_log_iff)
  then have e3: "3 \<le> e"
    using y by (simp add: e_def le_floor_iff)
  define j where "j = nat (e - 3)"
  have "real_of_int e - 23 = real j - 20"
    using e3 by (simp add: j_def)
  then have "2 powr (real_of_int e - 23) = 2 powr real j / 2 powr 20"
    by (simp only: powr_diff)
  then have ulp: "2 powr (real_of_int e - 23) = 2 ^ j / 2 ^ 20"
    by (simp add: powr_realpow)
  define m where "m = round_half_even (y / 2 powr (real_of_int e - 23))"
  have "float32 y = 2 powr (real_of_int e - 23) * real_of_int m"
    using y by (simp add: float32_def Let_def e_def m_def)
  then have "float32 y = 2 ^ j / 2 ^ 20 * real_of_int m"
    by (simp only: ulp)
  then have "float32 y = real_of_int (2 ^ j * m) / 2 ^ 20"
    by simp
  then show ?thesis
    by blast
qed

lemma ln2_bounds: "1 / 2 \<le> ln (2::real)" "ln (2::real) \<le> 1"
proof -
  have "ln (1 / 2 :: real) \<le> 1 / 2 - 1"
    by (rule ln_le_minus_one) simp
  then show "1 / 2 \<le> ln (2::real)"
    by (simp add: ln_div)
  show "ln (2::real) \<le> 1"
    using ln_le_minus_one [of "2::real"] by simp
qed

text \<open>
  Between \<open>2 ^ 21\<close> and \<open>2 ^ 22\<close> there are more natural numbers than there are multiples
  of \<open>2 ^ - 20\<close> near their logarithms: a function to these multiples that stays close
  to the logarithm takes a value twice.
\<close>

lemma grid_collision:
  fixes f :: "nat \<Rightarrow> real"
  assumes grid: "\<forall>n. 2 ^ 21 \<le> n \<and> n \<le> 2 ^ 22 \<longrightarrow> (\<exists>k::int. f n = real_of_int k / 2 ^ 20)"
    and acc: "\<forall>n. 2 ^ 21 \<le> n \<and> n \<le> 2 ^ 22 \<longrightarrow> \<bar>f n - ln (real n)\<bar> \<le> 1 / 2 ^ 19"
  shows "\<exists>n1 n2. 2 ^ 21 \<le> n1 \<and> n1 < n2 \<and> n2 \<le> 2 ^ 22 \<and> f n1 = f n2"
proof (rule ccontr)
  assume no: "\<not> (\<exists>n1 n2. 2 ^ 21 \<le> n1 \<and> n1 < n2 \<and> n2 \<le> 2 ^ 22 \<and> f n1 = f n2)"
  define S :: "nat set" where "S = {2 ^ 21..2 ^ 22}"
  define L where "L = ln (2::real)"
  define lo where "lo = 21 * L * 2 ^ 20 - 2"
  define hi where "hi = 22 * L * 2 ^ 20 + 2"
  define G where "G = (\<lambda>k::int. real_of_int k / 2 ^ 20) ` {\<lceil>lo\<rceil>..\<lfloor>hi\<rfloor>}"
  have inj: "inj_on f S"
  proof (rule inj_onI)
    fix a b
    assume ab: "a \<in> S" "b \<in> S" "f a = f b"
    show "a = b"
    proof (rule ccontr)
      assume "a \<noteq> b"
      then consider "a < b" | "b < a"
        by linarith
      then show False
      proof cases
        case 1
        with ab have "2 ^ 21 \<le> a \<and> a < b \<and> b \<le> 2 ^ 22 \<and> f a = f b"
          by (simp add: S_def)
        with no show False
          by blast
      next
        case 2
        with ab have "2 ^ 21 \<le> b \<and> b < a \<and> a \<le> 2 ^ 22 \<and> f b = f a"
          by (simp add: S_def)
        with no show False
          by blast
      qed
    qed
  qed
  have lnb: "21 * L \<le> ln (real n) \<and> ln (real n) \<le> 22 * L" if "n \<in> S" for n
  proof -
    have "(2::real) ^ 21 \<le> real n" and "real n \<le> 2 ^ 22"
      using that of_nat_mono [of "2 ^ 21" n] of_nat_mono [of n "2 ^ 22"]
      by (simp_all add: S_def)
    then have "ln ((2::real) ^ 21) \<le> ln (real n)" and "ln (real n) \<le> ln ((2::real) ^ 22)"
      by simp_all
    moreover have "ln ((2::real) ^ 21) = 21 * ln 2" and "ln ((2::real) ^ 22) = 22 * ln 2"
      by (simp_all only: ln_realpow of_nat_numeral)
    ultimately show ?thesis
      by (simp add: L_def)
  qed
  have sub: "f ` S \<subseteq> G"
  proof
    fix v
    assume "v \<in> f ` S"
    then obtain n where n: "n \<in> S" and v: "v = f n"
      by blast
    from n grid obtain k :: int where k: "f n = real_of_int k / 2 ^ 20"
      by (auto simp: S_def)
    from n acc have "\<bar>f n - ln (real n)\<bar> \<le> 1 / 2 ^ 19"
      by (simp add: S_def)
    then have "\<bar>real_of_int k - ln (real n) * 2 ^ 20\<bar> \<le> 2"
      by (simp add: k field_simps abs_le_iff)
    with lnb [OF n] have "lo \<le> real_of_int k" and "real_of_int k \<le> hi"
      by (simp_all add: lo_def hi_def abs_le_iff)
    then have "\<lceil>lo\<rceil> \<le> k" and "k \<le> \<lfloor>hi\<rfloor>"
      by (simp_all add: ceiling_le_iff le_floor_iff)
    then show "v \<in> G"
      using v k by (auto simp: G_def)
  qed
  have "card S = card (f ` S)"
    using inj by (simp add: card_image)
  also have "\<dots> \<le> card G"
    using sub by (intro card_mono) (simp_all add: G_def)
  also have "\<dots> \<le> card {\<lceil>lo\<rceil>..\<lfloor>hi\<rfloor>}"
    unfolding G_def by (rule card_image_le) simp
  also have "\<dots> = nat (\<lfloor>hi\<rfloor> - \<lceil>lo\<rceil> + 1)"
    by simp
  finally have c: "card S \<le> nat (\<lfloor>hi\<rfloor> - \<lceil>lo\<rceil> + 1)" .
  have "real_of_int (\<lfloor>hi\<rfloor> - \<lceil>lo\<rceil> + 1) =
          real_of_int \<lfloor>hi\<rfloor> - real_of_int \<lceil>lo\<rceil> + 1"
    by simp
  also have "\<dots> \<le> hi - lo + 1"
    using of_int_floor_le [of hi] le_of_int_ceiling [of lo] by linarith
  also have "\<dots> = L * 2 ^ 20 + 5"
    by (simp add: hi_def lo_def algebra_simps)
  also have "\<dots> \<le> 2 ^ 20 + 5"
    using ln2_bounds(2) by (simp add: L_def)
  finally have "real_of_int (\<lfloor>hi\<rfloor> - \<lceil>lo\<rceil> + 1) \<le> real_of_int (2 ^ 20 + 5)"
    by simp
  then have "\<lfloor>hi\<rfloor> - \<lceil>lo\<rceil> + 1 \<le> 2 ^ 20 + 5"
    by (simp only: of_int_le_iff)
  then have "nat (\<lfloor>hi\<rfloor> - \<lceil>lo\<rceil> + 1) \<le> nat (2 ^ 20 + 5)"
    by (rule nat_mono)
  moreover have "card S = 2 ^ 22 - 2 ^ 21 + 1"
    by (simp add: S_def)
  ultimately show False
    using c by simp
qed

text \<open>The error that the table of the prior inherits from the roundings.\<close>

lemma ln_float32_close:
  assumes "1 \<le> D"
  shows "1 / 2 \<le> float32 D" and "float32 D \<le> 2 * D"
    and "\<bar>ln (float32 D) - ln D\<bar> \<le> 1 / 2 ^ 23"
proof -
  define fD where "fD = float32 D"
  have e: "\<bar>fD - D\<bar> \<le> D / 2 ^ 24"
    using float32_error [of D] assms by (simp add: fD_def)
  have small: "D / 2 ^ 24 \<le> D / 2"
    using assms by simp
  have lo: "D / 2 \<le> fD" and hi: "fD \<le> 2 * D"
    using e small assms by linarith+
  have pos: "0 < fD" "0 < D"
    using lo assms by linarith+
  have "ln fD - ln D = ln (fD / D)"
    using pos by (simp add: ln_div)
  also have "\<dots> \<le> fD / D - 1"
    using pos by (intro ln_le_minus_one) simp
  also have "\<dots> = (fD - D) / D"
    using pos by (simp add: field_simps)
  also have "\<dots> \<le> (D / 2 ^ 24) / D"
    using e pos by (intro divide_right_mono) linarith+
  also have "\<dots> = 1 / 2 ^ 24"
    using pos by simp
  finally have up: "ln fD - ln D \<le> 1 / 2 ^ 24" .
  have "ln D - ln fD = ln (D / fD)"
    using pos by (simp add: ln_div)
  also have "\<dots> \<le> D / fD - 1"
    using pos by (intro ln_le_minus_one) simp
  also have "\<dots> = (D - fD) / fD"
    using pos by (simp add: field_simps)
  also have "\<dots> \<le> \<bar>fD - D\<bar> / fD"
    using pos by (intro divide_right_mono) linarith+
  also have "\<dots> \<le> (D / 2 ^ 24) / (D / 2)"
    using e pos lo by (intro frac_le) simp_all
  also have "\<dots> = 1 / 2 ^ 23"
    using pos by simp
  finally have dn: "ln D - ln fD \<le> 1 / 2 ^ 23" .
  show "1 / 2 \<le> float32 D" and "float32 D \<le> 2 * D"
    using lo hi assms by (simp_all add: fD_def)
  have "(1::real) / 2 ^ 24 \<le> 1 / 2 ^ 23"
    by simp
  with up dn have "\<bar>ln fD - ln D\<bar> \<le> 1 / 2 ^ 23"
    by linarith
  then show "\<bar>ln (float32 D) - ln D\<bar> \<le> 1 / 2 ^ 23"
    by (simp only: fD_def)
qed

lemma ln_nat_bound:
  fixes x :: real
  assumes "1 \<le> x" and "x \<le> 2 ^ 18"
  shows "0 \<le> ln x" and "ln x \<le> 18"
proof -
  show "0 \<le> ln x"
    using assms by simp
  have "ln x \<le> ln ((2::real) ^ 18)"
    using assms by simp
  also have "\<dots> = 18 * ln 2"
    by (simp only: ln_realpow of_nat_numeral)
  also have "\<dots> \<le> 18"
    using ln2_bounds(2) by simp
  finally show "ln x \<le> 18" .
qed

lemma prior_entry_bounds:
  fixes logf :: "real \<Rightarrow> real"
  assumes acc: "\<forall>x. 1 / 2 \<le> x \<and> x \<le> 2 ^ 19 \<longrightarrow> \<bar>logf x - ln x\<bar> \<le> \<delta>"
    and small: "\<delta> \<le> 1 / 2"
    and D: "1 \<le> D" "D \<le> 2 ^ 18" and i: "1 \<le> i" "i \<le> 2 ^ 18"
  shows "\<bar>float32 (logf (float32 (real i)) - logf (float32 D)) -
           (logf (real i) - logf (float32 D))\<bar> \<le> 1 / 2 ^ 19"
    and "\<bar>logf (real i) - ln (real i)\<bar> \<le> \<delta>"
    and "\<bar>logf (float32 D) - ln D\<bar> \<le> \<delta> + 1 / 2 ^ 23"
proof -
  have ri: "1 \<le> real i" "real i \<le> 2 ^ 18"
    using i of_nat_mono [of i "2 ^ 18"] by simp_all
  have fi: "float32 (real i) = real i"
    using i by (intro float32_of_nat) simp_all
  show a: "\<bar>logf (real i) - ln (real i)\<bar> \<le> \<delta>"
    using acc ri by simp
  have "\<bar>logf (float32 D) - ln (float32 D)\<bar> \<le> \<delta>"
    using acc ln_float32_close(1,2) [OF D(1)] D(2) by simp
  with ln_float32_close(3) [OF D(1)]
  show c: "\<bar>logf (float32 D) - ln D\<bar> \<le> \<delta> + 1 / 2 ^ 23"
    by linarith
  define x where "x = logf (real i) - logf (float32 D)"
  have t: "(1::real) / 2 ^ 23 \<le> 1"
    by simp
  have "\<bar>x\<bar> \<le> 32"
    using a c small t ln_nat_bound [OF ri] ln_nat_bound [OF D] unfolding x_def by linarith
  then have "\<bar>x\<bar> / 2 ^ 24 \<le> 1 / 2 ^ 19"
    by simp
  with float32_error [of x]
  show "\<bar>float32 (logf (float32 (real i)) - logf (float32 D)) -
           (logf (real i) - logf (float32 D))\<bar> \<le> 1 / 2 ^ 19"
    by (simp add: fi x_def)
qed

lemma ln_step:
  assumes "1 \<le> i" and "i < j"
  shows "1 / real j \<le> ln (real j) - ln (real i)"
proof -
  have j: "0 < real j" "1 < real j"
    using assms by simp_all
  have "ln ((real j - 1) / real j) \<le> (real j - 1) / real j - 1"
    using j by (intro ln_le_minus_one) simp
  also have "\<dots> = - (1 / real j)"
    using j by (simp add: field_simps)
  finally have "1 / real j \<le> ln (real j) - ln (real j - 1)"
    using j by (simp add: ln_div)
  moreover have "ln (real i) \<le> ln (real j - 1)"
    using assms by simp
  ultimately show ?thesis
    by linarith
qed

subsection \<open>The CRP prior\<close>

lemma np_log32_value:
  assumes "0 < x"
  shows "np_log32 logf x = Inr (logf (float32 x))"
  using float32_pos [OF assms] by (simp add: np_log32_def Let_def)

lemma log_CRP_prior_value:
  assumes "0 < n_i" and "0 < n - 1 + a"
  shows "log_CRP_prior logf n_i n a =
           Inr (float32 (logf (float32 n_i) - logf (float32 (n - 1 + a))))"
  using assms by (simp add: log_CRP_prior_def np_log32_value)

lemma init_DP_prior_table:
  assumes "0 < DP_alpha s" and "0 < real (cells_total s) - 1 + DP_alpha s"
  shows "init_DP_prior logf s =
     Inr (s\<lparr>CRP_prior := 0 # map (\<lambda>v. float32 (logf (float32 v) -
                                      logf (float32 (real (cells_total s) - 1 + DP_alpha s))))
        (map real [1..<Suc (cells_total s)] @ [DP_alpha s])\<rparr>)"
proof -
  let ?vals = "map real [1..<Suc (cells_total s)] @ [DP_alpha s]"
  have pos: "0 < v \<and> 0 < real (cells_total s) - 1 + DP_alpha s" if "v \<in> set ?vals" for v
    using that assms by auto
  have "emap (\<lambda>v. log_CRP_prior logf v (real (cells_total s)) (DP_alpha s)) ?vals =
        Inr (map (\<lambda>v. float32 (logf (float32 v) -
                   logf (float32 (real (cells_total s) - 1 + DP_alpha s)))) ?vals)"
    by (rule emap_all_Inr) (simp add: log_CRP_prior_value pos)
  then show ?thesis
    by (simp add: init_DP_prior_def Let_def)
qed

lemma nth_prior_table:
  assumes "1 \<le> i" and "i \<le> n"
  shows "(0 # map f (map real [1..<Suc n] @ [a])) ! i = f (real i)"
proof -
  from assms obtain k where k: "i = Suc k" and "k < n"
    by (cases i) auto
  then have "(map f (map real [1..<Suc n] @ [a])) ! k = f (real (Suc k))"
    by (simp add: nth_append del: upt_Suc)
  with k show ?thesis by simp
qed

text \<open>
  The correctly rounded logarithm is within \<open>2 ^ - 19\<close> of the logarithm for
  arguments up to \<open>2 ^ 19\<close>.
\<close>

lemma float32_log_accurate:
  "\<forall>x. 1 / 2 \<le> x \<and> x \<le> 2 ^ 19 \<longrightarrow> \<bar>float32 (ln x) - ln x\<bar> \<le> 1 / 2 ^ 19"
proof (intro allI impI)
  fix x :: real
  assume x: "1 / 2 \<le> x \<and> x \<le> 2 ^ 19"
  have "ln (1 / 2 :: real) \<le> ln x"
    using x by (intro ln_mono) simp_all
  then have lo: "- 1 \<le> ln x"
    using ln2_bounds(2) by (simp add: ln_div)
  have "ln x \<le> ln ((2::real) ^ 19)"
    using x by (intro ln_mono) simp_all
  also have "\<dots> = 19 * ln 2"
    by (simp only: ln_realpow of_nat_numeral)
  finally have hi: "ln x \<le> 19"
    using ln2_bounds(2) by simp
  from lo hi have "\<bar>ln x\<bar> \<le> 32"
    by simp
  then have "\<bar>ln x\<bar> / 2 ^ 24 \<le> 1 / 2 ^ 19"
    by simp
  with float32_error [of "ln x"] show "\<bar>float32 (ln x) - ln x\<bar> \<le> 1 / 2 ^ 19"
    by linarith
qed

text \<open>
  With at least \<open>2 ^ 22\<close> cells the table holds the same prior for two sizes, for
  every logarithm of single precision that is within \<open>2 ^ - 19\<close> of the logarithm:
  its values between \<open>ln (2 ^ 21)\<close> and \<open>ln (2 ^ 22)\<close> are multiples of \<open>2 ^ - 20\<close>,
  and there are fewer of them than sizes.
\<close>

lemma CRP_prior_collision:
  fixes logf :: "real \<Rightarrow> real"
  assumes alpha: "0 < DP_alpha s" and N: "2 ^ 22 \<le> cells_total s"
    and grid: "\<forall>n::nat. 2 ^ 21 \<le> n \<and> n \<le> 2 ^ 22 \<longrightarrow>
                 (\<exists>k::int. logf (real n) = real_of_int k / 2 ^ 20)"
    and acc: "\<forall>n::nat. 2 ^ 21 \<le> n \<and> n \<le> 2 ^ 22 \<longrightarrow>
                 \<bar>logf (real n) - ln (real n)\<bar> \<le> 1 / 2 ^ 19"
  shows "\<exists>s'. init_DP_prior logf s = Inr s' \<and>
           (\<exists>i j. 1 \<le> i \<and> i < j \<and> j \<le> cells_total s \<and> CRP_prior s' ! i = CRP_prior s' ! j)"
proof -
  define n where "n = cells_total s"
  define d where "d = real n - 1 + DP_alpha s"
  define f where "f = (\<lambda>v. float32 (logf (float32 v) - logf (float32 d)))"
  define tab where "tab = 0 # map f (map real [1..<Suc n] @ [DP_alpha s])"
  have n1: "1 \<le> n"
    using N by (simp add: n_def)
  then have den: "0 < d"
    using alpha by (simp add: d_def)
  have run: "init_DP_prior logf s = Inr (s\<lparr>CRP_prior := tab\<rparr>)"
    using init_DP_prior_table [of s logf] alpha den
    by (simp add: tab_def f_def d_def n_def)
  from grid_collision [of "\<lambda>k. logf (real k)", OF grid acc] obtain n1 n2 :: nat where
    c: "2 ^ 21 \<le> n1" "n1 < n2" "n2 \<le> 2 ^ 22" "logf (real n1) = logf (real n2)"
    by blast
  have r1: "1 \<le> n1" "n1 < 2 ^ 24" and r2: "1 \<le> n2" "n2 < 2 ^ 24"
    using c by simp_all
  have le: "n1 \<le> n" "n2 \<le> n"
    using c N by (simp_all add: n_def)
  have "tab ! n1 = f (real n1)" and "tab ! n2 = f (real n2)"
    unfolding tab_def using r1(1) r2(1) le by (simp_all only: nth_prior_table)
  moreover have "f (real n1) = f (real n2)"
    using c(4) by (simp add: f_def float32_of_nat [OF r1] float32_of_nat [OF r2])
  ultimately have "tab ! n1 = tab ! n2"
    by simp
  with r1(1) c(2) le(2) have "\<exists>i j. 1 \<le> i \<and> i < j \<and> j \<le> n \<and> tab ! i = tab ! j"
    by blast
  with run show ?thesis
    by (simp add: n_def)
qed

text \<open>
  Claim C7. For a positive concentration and at least one cell, \<^verbatim>\<open>init_DP_prior\<close>
  returns. The entry of the table for a cluster of size \<open>i\<close> is the value of
  \<^verbatim>\<open>log_CRP_prior\<close>, which is \<open>ln i - ln (n - 1 + alpha)\<close> evaluated in single precision;
  the entry of a new cluster (the last one) is the same expression with \<open>alpha\<close> in the
  place of the size. When \<open>n - 1 + alpha\<close> lies between \<open>1\<close> and \<open>2 ^ 18\<close>, the
  logarithm of single precision is within \<open>\<delta>\<close> of the logarithm and
  \<open>n * (2 * \<delta> + 2 ^ - 18) < 1\<close>, every such entry is within \<open>2 * \<delta> + 2 ^ - 18\<close> of
  \<open>ln i - ln (n - 1 + alpha)\<close> and the entries for the sizes \<open>1, ..., n\<close> are strictly
  increasing. (For \<open>\<delta> = 2 ^ - 20\<close> this covers every \<open>n\<close> up to \<open>174762\<close>.)
\<close>

theorem CRP_prior_formula_increasing:
  fixes logf :: "real \<Rightarrow> real"
  assumes alpha: "0 < DP_alpha s" and N: "1 \<le> cells_total s"
    and D: "1 \<le> real (cells_total s) - 1 + DP_alpha s"
      "real (cells_total s) - 1 + DP_alpha s \<le> 2 ^ 18"
    and acc: "\<forall>x. 1 / 2 \<le> x \<and> x \<le> 2 ^ 19 \<longrightarrow> \<bar>logf x - ln x\<bar> \<le> \<delta>"
    and res: "real (cells_total s) * (2 * \<delta> + 1 / 2 ^ 18) < 1"
  shows "\<exists>s'. init_DP_prior logf s = Inr s' \<and>
     (\<forall>i. 1 \<le> i \<and> i \<le> cells_total s \<longrightarrow>
        log_CRP_prior logf (real i) (real (cells_total s)) (DP_alpha s) = Inr (CRP_prior s' ! i) \<and>
        CRP_prior s' ! i =
          float32 (logf (float32 (real i)) -
                   logf (float32 (real (cells_total s) - 1 + DP_alpha s))) \<and>
        \<bar>CRP_prior s' ! i - (ln (real i) - ln (real (cells_total s) - 1 + DP_alpha s))\<bar>
          \<le> 2 * \<delta> + 1 / 2 ^ 18) \<and>
     log_CRP_prior logf (DP_alpha s) (real (cells_total s)) (DP_alpha s) =
       Inr (last (CRP_prior s')) \<and>
     last (CRP_prior s') =
       float32 (logf (float32 (DP_alpha s)) -
                logf (float32 (real (cells_total s) - 1 + DP_alpha s))) \<and>
     (\<forall>i j. 1 \<le> i \<and> i < j \<and> j \<le> cells_total s \<longrightarrow> CRP_prior s' ! i < CRP_prior s' ! j)"
proof -
  define n where "n = cells_total s"
  define d where "d = real n - 1 + DP_alpha s"
  define f where "f = (\<lambda>v. float32 (logf (float32 v) - logf (float32 d)))"
  define tab where "tab = 0 # map f (map real [1..<Suc n] @ [DP_alpha s])"
  have den: "0 < d" and d1: "1 \<le> d" and d2: "d \<le> 2 ^ 18"
    using D by (simp_all add: d_def n_def)
  have run: "init_DP_prior logf s = Inr (s\<lparr>CRP_prior := tab\<rparr>)"
    using init_DP_prior_table [of s logf] alpha den
    by (simp add: tab_def f_def d_def n_def)
  have entry: "tab ! i = f (real i)" if "1 \<le> i" "i \<le> n" for i
    unfolding tab_def using that by (rule nth_prior_table)
  have scalar: "log_CRP_prior logf (real i) (real n) (DP_alpha s) = Inr (f (real i))"
    if "1 \<le> i" for i
    using that den by (simp add: log_CRP_prior_value f_def d_def)
  have new: "log_CRP_prior logf (DP_alpha s) (real n) (DP_alpha s) = Inr (f (DP_alpha s))"
    using alpha den by (simp add: log_CRP_prior_value f_def d_def)
  have lst: "last tab = f (DP_alpha s)"
    by (simp add: tab_def)
  have "\<bar>logf 1 - ln 1\<bar> \<le> \<delta>"
    using acc [rule_format, of 1] by simp
  then have d0: "0 \<le> \<delta>"
    by simp
  have "real n * (1 / 2 ^ 18) \<le> real n * (2 * \<delta> + 1 / 2 ^ 18)"
    using d0 by (intro mult_left_mono) simp_all
  with res have "real n < 2 ^ 18"
    by (simp add: n_def)
  then have n18: "n \<le> 2 ^ 18"
    by simp
  have "1 * (2 * \<delta> + 1 / 2 ^ 18) \<le> real n * (2 * \<delta> + 1 / 2 ^ 18)"
    using N d0 by (intro mult_right_mono) (simp_all add: n_def)
  with res have small: "\<delta> \<le> 1 / 2"
    by (simp add: n_def)
  have step: "2 * \<delta> + 1 / 2 ^ 18 < 1 / real j" if "1 \<le> j" "j \<le> n" for j
  proof -
    have "real j * (2 * \<delta> + 1 / 2 ^ 18) \<le> real n * (2 * \<delta> + 1 / 2 ^ 18)"
      using that d0 by (intro mult_right_mono) simp_all
    with res have "real j * (2 * \<delta> + 1 / 2 ^ 18) < 1"
      by (simp add: n_def)
    then show ?thesis
      using that by (simp add: field_simps)
  qed
  have bounds: "\<bar>f (real i) - (logf (real i) - logf (float32 d))\<bar> \<le> 1 / 2 ^ 19 \<and>
      \<bar>logf (real i) - ln (real i)\<bar> \<le> \<delta> \<and>
      \<bar>logf (float32 d) - ln d\<bar> \<le> \<delta> + 1 / 2 ^ 23" if "1 \<le> i" "i \<le> n" for i
    using prior_entry_bounds [OF acc small d1 d2 that(1)] that(2) n18 by (simp add: f_def)
  have close: "\<bar>tab ! i - (ln (real i) - ln d)\<bar> \<le> 2 * \<delta> + 1 / 2 ^ 18"
    if "1 \<le> i" "i \<le> n" for i
  proof -
    have "(1::real) / 2 ^ 19 + 1 / 2 ^ 23 \<le> 1 / 2 ^ 18"
      by simp
    with bounds [OF that] show ?thesis
      unfolding entry [OF that] by linarith
  qed
  have mono: "tab ! i < tab ! j" if "1 \<le> i" "i < j" "j \<le> n" for i j
  proof -
    have i: "1 \<le> i" "i \<le> n" and j: "1 \<le> j" "j \<le> n"
      using that by simp_all
    have "(2::real) / 2 ^ 19 = 1 / 2 ^ 18"
      by simp
    with bounds [OF i] bounds [OF j] ln_step [OF that(1,2)] step [OF j]
    show ?thesis
      unfolding entry [OF i] entry [OF j] by linarith
  qed
  have fv: "float32 (logf (float32 v) - logf (float32 d)) = f v" for v
    by (simp add: f_def)
  show ?thesis
    apply (rule exI [of _ "s\<lparr>CRP_prior := tab\<rparr>"])
    using run entry scalar new lst close mono
    apply (simp add: n_def [symmetric] d_def [symmetric] fv)
    done
qed

theorem CRP_prior_formula_increasing_witness:
  "\<exists>s'. init_DP_prior (\<lambda>x. float32 (ln x)) example_engine = Inr s' \<and>
     CRP_prior s' ! 1 = float32 (float32 (ln (float32 1)) - float32 (ln (float32 5))) \<and>
     \<bar>CRP_prior s' ! 1 - (ln 1 - ln 5)\<bar> \<le> 1 / 2 ^ 17 \<and>
     CRP_prior s' ! 1 < CRP_prior s' ! 2 \<and>
     last (CRP_prior s') = float32 (float32 (ln (float32 2)) - float32 (ln (float32 5)))"
proof -
  have h1: "0 < DP_alpha example_engine" and h2: "1 \<le> cells_total example_engine"
    and h3: "1 \<le> real (cells_total example_engine) - 1 + DP_alpha example_engine"
    and h4: "real (cells_total example_engine) - 1 + DP_alpha example_engine \<le> 2 ^ 18"
    and h5: "real (cells_total example_engine) * (2 * (1 / 2 ^ 19) + 1 / 2 ^ 18) < 1"
    by (simp_all add: example_engine_def)
  from CRP_prior_formula_increasing [OF h1 h2 h3 h4 float32_log_accurate h5] obtain s' where
    s': "init_DP_prior (\<lambda>x. float32 (ln x)) example_engine = Inr s'" and
    pt: "\<forall>i. 1 \<le> i \<and> i \<le> cells_total example_engine \<longrightarrow>
        log_CRP_prior (\<lambda>x. float32 (ln x)) (real i) (real (cells_total example_engine))
          (DP_alpha example_engine) = Inr (CRP_prior s' ! i) \<and>
        CRP_prior s' ! i =
          float32 (float32 (ln (float32 (real i))) -
                   float32 (ln (float32 (real (cells_total example_engine) - 1 +
                      DP_alpha example_engine)))) \<and>
        \<bar>CRP_prior s' ! i - (ln (real i) - ln (real (cells_total example_engine) - 1 +
                      DP_alpha example_engine))\<bar> \<le> 2 * (1 / 2 ^ 19) + 1 / 2 ^ 18" and
    lst: "last (CRP_prior s') =
       float32 (float32 (ln (float32 (DP_alpha example_engine))) -
                float32 (ln (float32 (real (cells_total example_engine) - 1 +
                   DP_alpha example_engine))))" and
    mono: "\<forall>i j. 1 \<le> i \<and> i < j \<and> j \<le> cells_total example_engine \<longrightarrow>
             CRP_prior s' ! i < CRP_prior s' ! j"
    by blast
  have pre: "1 \<le> (1::nat) \<and> 1 \<le> cells_total example_engine"
    by (simp add: example_engine_def)
  note p = pt [rule_format, OF pre]
  have "CRP_prior s' ! 1 = float32 (float32 (ln (float32 1)) - float32 (ln (float32 5)))"
    using p [THEN conjunct2, THEN conjunct1] by (simp add: example_engine_def)
  moreover have "\<bar>CRP_prior s' ! 1 - (ln 1 - ln 5)\<bar> \<le> 1 / 2 ^ 17"
    using p [THEN conjunct2, THEN conjunct2] by (simp add: example_engine_def)
  moreover have "CRP_prior s' ! 1 < CRP_prior s' ! 2"
    using mono [rule_format, of 1 2] by (simp add: example_engine_def)
  moreover have "last (CRP_prior s') =
      float32 (float32 (ln (float32 2)) - float32 (ln (float32 5)))"
    using lst by (simp add: example_engine_def)
  ultimately show ?thesis using s' by blast
qed

text \<open>
  Without the bound on the number of cells the entries are not strictly increasing:
  for \<open>2 ^ 22\<close> cells and the correctly rounded logarithm, two different sizes have
  the same entry.
\<close>

theorem CRP_prior_float32_counterexample:
  "\<exists>s'. init_DP_prior (\<lambda>x. float32 (ln x)) (example_engine\<lparr>cells_total := 4194304\<rparr>) = Inr s' \<and>
     (\<exists>i j. 1 \<le> i \<and> i < j \<and> j \<le> 4194304 \<and> CRP_prior s' ! i = CRP_prior s' ! j)"
proof -
  let ?s = "example_engine\<lparr>cells_total := 4194304\<rparr>"
  have range: "10 \<le> ln (real n) \<and> ln (real n) \<le> 22" if "2 ^ 21 \<le> n" "n \<le> 2 ^ 22" for n :: nat
  proof -
    have "(2::real) ^ 21 \<le> real n" and "real n \<le> 2 ^ 22"
      using that of_nat_mono [of "2 ^ 21" n] of_nat_mono [of n "2 ^ 22"] by simp_all
    then have "ln ((2::real) ^ 21) \<le> ln (real n)" and "ln (real n) \<le> ln ((2::real) ^ 22)"
      by simp_all
    moreover have "ln ((2::real) ^ 21) = 21 * ln 2" and "ln ((2::real) ^ 22) = 22 * ln 2"
      by (simp_all only: ln_realpow of_nat_numeral)
    ultimately show ?thesis
      using ln2_bounds by simp
  qed
  have grid: "\<forall>n::nat. 2 ^ 21 \<le> n \<and> n \<le> 2 ^ 22 \<longrightarrow>
                 (\<exists>k::int. float32 (ln (real n)) = real_of_int k / 2 ^ 20)"
  proof (intro allI impI)
    fix n :: nat
    assume "2 ^ 21 \<le> n \<and> n \<le> 2 ^ 22"
    with range [of n] have "8 \<le> ln (real n)"
      by simp
    then show "\<exists>k::int. float32 (ln (real n)) = real_of_int k / 2 ^ 20"
      by (rule float32_grid)
  qed
  have acc: "\<forall>n::nat. 2 ^ 21 \<le> n \<and> n \<le> 2 ^ 22 \<longrightarrow>
                 \<bar>float32 (ln (real n)) - ln (real n)\<bar> \<le> 1 / 2 ^ 19"
  proof (intro allI impI)
    fix n :: nat
    assume n: "2 ^ 21 \<le> n \<and> n \<le> 2 ^ 22"
    with range [of n] have "\<bar>ln (real n)\<bar> \<le> 32"
      by simp
    then have "\<bar>ln (real n)\<bar> / 2 ^ 24 \<le> 1 / 2 ^ 19"
      by simp
    with float32_error [of "ln (real n)"]
    show "\<bar>float32 (ln (real n)) - ln (real n)\<bar> \<le> 1 / 2 ^ 19"
      by linarith
  qed
  have a: "0 < DP_alpha ?s" and N: "2 ^ 22 \<le> cells_total ?s"
    by (simp_all add: example_engine_def)
  from CRP_prior_collision [of ?s "\<lambda>x. float32 (ln x)", OF a N grid acc] show ?thesis
    by simp
qed

subsection \<open>The concentration parameter\<close>

lemma init_DP_prior_floor:
  assumes "1 + EPSILON \<le> DP_alpha s"
  shows "init_DP_prior logf s =
     Inr (s\<lparr>CRP_prior := 0 # map (\<lambda>v. float32 (logf (float32 v) -
                                      logf (float32 (real (cells_total s) - 1 + DP_alpha s))))
        (map real [1..<Suc (cells_total s)] @ [DP_alpha s])\<rparr>)"
proof -
  have eps: "0 < EPSILON" by (simp add: EPSILON_def)
  have "0 < DP_alpha s" and "0 < real (cells_total s) - 1 + DP_alpha s"
    using assms eps by simp_all
  then show ?thesis
    by (rule init_DP_prior_table)
qed

text \<open>
  Claim C5. In a state with \<open>k\<close> clusters, for every draw \<open>eta\<close> in \<open>(0, 1]\<close>, every
  uniform draw \<open>u\<close> and every Gamma sampler, \<^verbatim>\<open>update_DP_alpha\<close> returns. With
  \<open>w = (a + k - 1) / (n * (b - ln eta))\<close> and \<open>pi_eta = w / (1 + w)\<close>, the draw is taken
  from \<open>Gamma (a + k, b - ln eta)\<close> when \<open>u < pi_eta\<close> and from
  \<open>Gamma (a + k - 1, b - ln eta)\<close> otherwise; the stored concentration is the maximum of
  the draw and \<open>1 + EPSILON\<close>, hence at least \<open>1 + EPSILON\<close>. The state returned is the
  one \<^verbatim>\<open>init_DP_prior\<close> builds from the new concentration: nothing but the
  concentration and the table of the prior has changed, and the table holds a leading
  \<open>0\<close>, the prior of every size \<open>1, ..., cells_total\<close> under the new concentration and
  the entry of a new cluster, \<open>cells_total + 2\<close> entries in all.
\<close>

theorem update_DP_alpha_mixture_floor:
  assumes eta: "0 < eta" "eta \<le> 1"
    and st: "0 < DP_alpha s" "0 \<le> DP_alpha_a s" "0 < DP_alpha_b s"
      "1 \<le> length (cells_per_cluster s)" "1 \<le> cells_total s"
    and n: "n = (case n_arg of None \<Rightarrow> cells_total s | Some m \<Rightarrow> if m = 0 then cells_total s else m)"
    and k: "k = real (length (cells_per_cluster s))"
    and w: "w = (DP_alpha_a s + k - 1) / (real n * (DP_alpha_b s - ln eta))"
    and pi_eta: "pi_eta = w / (1 + w)"
    and new_alpha: "new_alpha = (if u < pi_eta then rgamma (DP_alpha_a s + k) (DP_alpha_b s - ln eta)
                      else rgamma (DP_alpha_a s + k - 1) (DP_alpha_b s - ln eta))"
    and alpha': "alpha' = max new_alpha (1 + EPSILON)"
  shows "\<exists>s'. update_DP_alpha logf s n_arg eta u rgamma = Inr s' \<and>
           DP_alpha s' = alpha' \<and>
           1 + EPSILON \<le> DP_alpha s' \<and>
           init_DP_prior logf (s\<lparr>DP_alpha := alpha'\<rparr>) = Inr s' \<and>
           CRP_prior s' =
             0 # map (\<lambda>v. float32 (logf (float32 v) -
                                 logf (float32 (real (cells_total s) - 1 + alpha'))))
                   (map real [1..<Suc (cells_total s)] @ [alpha']) \<and>
           length (CRP_prior s') = cells_total s + 2 \<and>
           s' = s\<lparr>DP_alpha := alpha', CRP_prior := CRP_prior s'\<rparr>"
proof -
  have npos: "0 < n"
    using n st(5) by (cases n_arg) auto
  have le: "ln eta \<le> 0"
    using eta by simp
  then have scale: "0 < DP_alpha_b s - ln eta"
    using st(3) by simp
  have kpos: "1 \<le> k"
    using k st(4) by simp
  have den: "real n * (DP_alpha_b s - ln eta) \<noteq> 0"
    using npos scale by simp
  have w0: "0 \<le> w"
    unfolding w using kpos st(2) npos scale by (intro divide_nonneg_pos mult_pos_pos) simp_all
  then have w1: "1 + w \<noteq> 0"
    by simp
  let ?s1 = "s\<lparr>DP_alpha := alpha'\<rparr>"
  define tab where "tab = 0 # map (\<lambda>v. float32 (logf (float32 v) -
                                 logf (float32 (real (cells_total s) - 1 + alpha'))))
                   (map real [1..<Suc (cells_total s)] @ [alpha'])"
  have "1 + EPSILON \<le> DP_alpha ?s1"
    by (simp add: alpha')
  from init_DP_prior_floor [OF this, of logf]
  have s': "init_DP_prior logf ?s1 = Inr (?s1\<lparr>CRP_prior := tab\<rparr>)"
    by (simp add: tab_def)
  have shape: "\<not> (if u < pi_eta then DP_alpha_a s + k else DP_alpha_a s + k - 1) < 0"
    using kpos st(2) by simp
  have "update_DP_alpha logf s n_arg eta u rgamma = init_DP_prior logf ?s1"
    using eta(1) st(1) npos den w1 shape scale
    unfolding update_DP_alpha_def Let_def n [symmetric] k [symmetric]
    by (simp add: np_log_def np_div_def w [symmetric] pi_eta [symmetric] new_alpha alpha')
  with s' have run: "update_DP_alpha logf s n_arg eta u rgamma = Inr (?s1\<lparr>CRP_prior := tab\<rparr>)"
    by simp
  show ?thesis
  proof (intro exI [of _ "?s1\<lparr>CRP_prior := tab\<rparr>"] conjI)
    show "update_DP_alpha logf s n_arg eta u rgamma = Inr (?s1\<lparr>CRP_prior := tab\<rparr>)"
      by (rule run)
    show "DP_alpha (?s1\<lparr>CRP_prior := tab\<rparr>) = alpha'"
      by simp
    show "1 + EPSILON \<le> DP_alpha (?s1\<lparr>CRP_prior := tab\<rparr>)"
      by (simp add: alpha')
    show "init_DP_prior logf ?s1 = Inr (?s1\<lparr>CRP_prior := tab\<rparr>)"
      by (rule s')
    show "CRP_prior (?s1\<lparr>CRP_prior := tab\<rparr>) =
             0 # map (\<lambda>v. float32 (logf (float32 v) -
                                 logf (float32 (real (cells_total s) - 1 + alpha'))))
                   (map real [1..<Suc (cells_total s)] @ [alpha'])"
      by (simp add: tab_def del: upt_Suc)
    show "length (CRP_prior (?s1\<lparr>CRP_prior := tab\<rparr>)) = cells_total s + 2"
      by (simp add: tab_def)
    show "?s1\<lparr>CRP_prior := tab\<rparr> =
            s\<lparr>DP_alpha := alpha', CRP_prior := CRP_prior (?s1\<lparr>CRP_prior := tab\<rparr>)\<rparr>"
      by simp
  qed
qed

theorem update_DP_alpha_mixture_floor_witness:
  "\<exists>s'. update_DP_alpha (\<lambda>x. float32 (ln x)) example_engine None 1 0 (\<lambda>shape scale. shape) =
          Inr s' \<and>
     DP_alpha s' = max (ln 4 + 1) (1 + EPSILON) \<and> 1 + EPSILON \<le> DP_alpha s' \<and>
     length (CRP_prior s') = 6 \<and>
     CRP_prior s' ! 1 =
       float32 (float32 (ln (float32 1)) -
                float32 (ln (float32 (3 + max (ln 4 + 1) (1 + EPSILON)))))"
proof -
  have pos: "(0::real) < ln 4 / 4 / (1 + ln 4 / 4)"
    by (intro divide_pos_pos add_pos_pos) simp_all
  have "\<exists>s'. update_DP_alpha (\<lambda>x. float32 (ln x)) example_engine None 1 0 (\<lambda>shape scale. shape) =
             Inr s' \<and>
           DP_alpha s' = max (ln 4 + 1) (1 + EPSILON) \<and>
           1 + EPSILON \<le> DP_alpha s' \<and>
           init_DP_prior (\<lambda>x. float32 (ln x))
             (example_engine\<lparr>DP_alpha := max (ln 4 + 1) (1 + EPSILON)\<rparr>) = Inr s' \<and>
           CRP_prior s' =
             0 # map (\<lambda>v. float32 (float32 (ln (float32 v)) -
                   float32 (ln (float32 (real (cells_total example_engine) - 1 +
                      max (ln 4 + 1) (1 + EPSILON))))))
                   (map real [1..<Suc (cells_total example_engine)] @
                      [max (ln 4 + 1) (1 + EPSILON)]) \<and>
           length (CRP_prior s') = cells_total example_engine + 2 \<and>
           s' = example_engine\<lparr>DP_alpha := max (ln 4 + 1) (1 + EPSILON),
                                CRP_prior := CRP_prior s'\<rparr>"
    by (rule update_DP_alpha_mixture_floor [where k = 1 and n = 4 and w = "ln 4 / 4"
          and pi_eta = "ln 4 / 4 / (1 + ln 4 / 4)" and new_alpha = "ln 4 + 1"])
       (use pos in \<open>simp_all add: example_engine_def\<close>)
  then obtain s' where
    run: "update_DP_alpha (\<lambda>x. float32 (ln x)) example_engine None 1 0 (\<lambda>shape scale. shape) =
             Inr s'"
    and a: "DP_alpha s' = max (ln 4 + 1) (1 + EPSILON)" "1 + EPSILON \<le> DP_alpha s'"
    and tab: "CRP_prior s' =
             0 # map (\<lambda>v. float32 (float32 (ln (float32 v)) -
                   float32 (ln (float32 (real (cells_total example_engine) - 1 +
                      max (ln 4 + 1) (1 + EPSILON))))))
                   (map real [1..<Suc (cells_total example_engine)] @
                      [max (ln 4 + 1) (1 + EPSILON)])"
    and len: "length (CRP_prior s') = cells_total example_engine + 2"
    by blast
  have "CRP_prior s' ! 1 =
       float32 (float32 (ln (float32 1)) -
                float32 (ln (float32 (3 + max (ln 4 + 1) (1 + EPSILON)))))"
    unfolding tab by (simp add: example_engine_def upt_rec)
  moreover have "length (CRP_prior s') = 6"
    using len by (simp add: example_engine_def)
  ultimately show ?thesis
    using run a by blast
qed

subsection \<open>The proposal step sizes\<close>

lemma update_MH_std_low:
  assumes "params_MH_counter s = (accepted, declined)" and "accepted + declined + 1 \<noteq> 0"
    and "(accepted + 1) / (accepted + declined + 1) < 0.45" and "mult \<noteq> 0"
  shows "update_MH_std s mult =
     Inr (s\<lparr>params_MH_counter := (0, 0),
            param_proposal_sd := map (\<lambda>sd. np_clip (sd / mult) 0 1) (param_proposal_sd s)\<rparr>)"
proof -
  have "emap (\<lambda>sd. np_div sd mult) (param_proposal_sd s) =
        Inr (map (\<lambda>sd. sd / mult) (param_proposal_sd s))"
    by (rule emap_all_Inr) (simp add: np_div_def assms(4))
  then show ?thesis
    using assms by (simp add: update_MH_std_def np_div_def Let_def comp_def)
qed

lemma update_MH_std_band:
  assumes "params_MH_counter s = (accepted, declined)" and "accepted + declined + 1 \<noteq> 0"
    and "0.45 \<le> (accepted + 1) / (accepted + declined + 1)"
    and "(accepted + 1) / (accepted + declined + 1) \<le> 0.55"
  shows "update_MH_std s mult = Inr (s\<lparr>params_MH_counter := (0, 0)\<rparr>)"
  using assms by (simp add: update_MH_std_def np_div_def Let_def)

lemma update_MH_std_high:
  assumes "params_MH_counter s = (accepted, declined)" and "accepted + declined + 1 \<noteq> 0"
    and "0.55 < (accepted + 1) / (accepted + declined + 1)"
  shows "update_MH_std s mult =
     Inr (s\<lparr>params_MH_counter := (0, 0),
            param_proposal_sd := map (\<lambda>sd. np_clip (sd * mult) 0 1) (param_proposal_sd s)\<rparr>)"
  using assms by (simp add: update_MH_std_def np_div_def Let_def)

text \<open>
  Claim C8, at the input where the code leaves it. With ten accepted and no declined
  proposals the ratio is \<open>1\<close>; the step sizes \<open>(0.8, 0.9, 1)\<close> grow by \<open>1.5\<close> and are
  clamped to \<open>(1, 1, 1)\<close>. The claim has them re-seeded with \<open>(0.8, 0.9, 1)\<close>; the code
  returns \<open>(1, 1, 1)\<close>.
\<close>

theorem update_MH_std_keeps_collapsed_sd:
  "update_MH_std (example_engine\<lparr>param_proposal_sd := [0.8, 0.9, 1],
        params_MH_counter := (10, 0)\<rparr>) 1.5 =
     Inr (example_engine\<lparr>param_proposal_sd := [1, 1, 1], params_MH_counter := (0, 0)\<rparr>)"
  by (simp add: update_MH_std_high [where accepted = 10 and declined = 0] np_clip_def
      example_engine_def)

subsection \<open>Normalisation in log space\<close>

lemma nanargmax_pair: "nanargmax [p0, p1] = Inr (if p0 < p1 then 1 else 0)"
  by (simp add: nanargmax_def)

lemma normalize_log_try_pair_underflow:
  assumes "min p0 p1 - max p0 p1 < exp_min"
  shows "normalize_log_try exp_min [p0, p1] (if p0 < p1 then 1 else 0) = Inl FloatingPointError"
  using assms
  by (auto simp: normalize_log_try_def np_exp_def upt_rec min_def max_def split: if_splits)

lemma exp_log_EPSILON: "exp log_EPSILON = EPSILON"
  by (simp add: log_EPSILON_def EPSILON_def)

text \<open>
  Claim C4, as the code has it. On two log values whose difference underflows in
  \<^verbatim>\<open>np.exp\<close>, \<^verbatim>\<open>_normalize_log\<close> does not raise: the two values differ, and the result
  gives the log probability \<open>0\<close>, that is the mass \<open>1\<close>, to the strictly larger one and
  \<open>log_EPSILON\<close>, the mass \<open>EPSILON\<close>, to the other.
\<close>

theorem normalize_log_underflow_fallback:
  assumes "exp_min \<le> 0" and "min p0 p1 - max p0 p1 < exp_min"
  shows "\<exists>r. normalize_log exp_min [p0, p1] = Inr r \<and> p0 \<noteq> p1 \<and>
           r = (if p1 < p0 then [0, log_EPSILON] else [log_EPSILON, 0]) \<and>
           map exp r = (if p1 < p0 then [1, EPSILON] else [EPSILON, 1])"
proof -
  have ne: "p0 \<noteq> p1"
    using assms by auto
  have "normalize_log exp_min [p0, p1] =
          Inr (if p1 < p0 then [0, log_EPSILON] else [log_EPSILON, 0])"
    using normalize_log_try_pair_underflow [OF assms(2)]
    by (simp add: normalize_log_def nanargmax_pair)
  with ne show ?thesis
    by (simp add: exp_log_EPSILON)
qed

theorem normalize_log_underflow_fallback_witness:
  "\<exists>r. normalize_log (- 708) [- 1000, 0] = Inr r \<and> r = [log_EPSILON, 0] \<and>
         map exp r = [EPSILON, 1]"
  using normalize_log_underflow_fallback [of "- 708" "- 1000" 0] by simp

theorem normalize_log_mass_counterexample:
  "normalize_log (- 708) [0, - 1000] = Inr [0, log_EPSILON] \<and>
   map exp [0, log_EPSILON] = [1, EPSILON] \<and> (1::real) \<noteq> 1 - EPSILON"
proof -
  have "normalize_log (- 708) [0, - 1000] = Inr [0, log_EPSILON]"
    using normalize_log_try_pair_underflow [of 0 "- 1000" "- 708"]
    by (simp add: normalize_log_def nanargmax_pair)
  moreover have "(1::real) \<noteq> 1 - EPSILON"
    by (simp add: EPSILON_def)
  ultimately show ?thesis
    by (simp add: exp_log_EPSILON)
qed

subsection \<open>The likelihood of an observation\<close>

lemma log_beta_pdf_short_guarded: "\<exists>v. log_beta_pdf_short x a b = Inr v"
  by (auto simp: log_beta_pdf_short_def np_log_def EPSILON_def)

lemma mixture_positive:
  fixes theta a b :: real
  assumes "0 \<le> theta" and "theta \<le> 1" and "0 < a" and "0 < b"
  shows "0 < theta * a + (1 - theta) * b"
proof (cases "theta = 0")
  case True
  with assms(4) show ?thesis by simp
next
  case False
  with assms(1) have "0 < theta" by simp
  then have "0 < theta * a"
    using assms(3) by simp
  moreover have "0 \<le> (1 - theta) * b"
    using assms(2,4) by simp
  ultimately show ?thesis
    by (rule add_pos_nonneg)
qed

lemma log_mix_returns:
  assumes "0 < alpha_error s" "alpha_error s < 1" "0 < beta_error s" "beta_error s < 1"
    and "0 \<le> theta" "theta \<le> 1"
  shows "\<exists>l. log_mix s x theta = Inr l"
proof (cases x)
  case Obs0
  have "0 < theta * beta_error s + (1 - theta) * (1 - alpha_error s)"
    using assms by (intro mixture_positive) simp_all
  with Obs0 show ?thesis
    by (simp add: log_mix_def Bernoulli_FN_def Bernoulli_FP_def np_log_def)
next
  case Obs1
  have "0 < theta * (1 - beta_error s) + (1 - theta) * alpha_error s"
    using assms by (intro mixture_positive) simp_all
  with Obs1 show ?thesis
    by (simp add: log_mix_def Bernoulli_FN_def Bernoulli_FP_def np_log_def)
next
  case NaN
  then show ?thesis
    by (simp add: log_mix_def Bernoulli_FN_def Bernoulli_FP_def)
qed

text \<open>
  With both error rates strictly between \<open>0\<close> and \<open>1\<close> (the default is \<open>EPSILON\<close>) and
  parameters in \<open>[0, 1]\<close> the mixture is positive and \<^verbatim>\<open>_calc_ll\<close> returns: what keeps
  the logarithm finite is the range of the error rates, not a guard at the logarithm.
\<close>

lemma calc_ll_flat_returns:
  assumes "0 < alpha_error s" "alpha_error s < 1" "0 < beta_error s" "beta_error s < 1"
    and "length x = length theta" and "\<forall>t \<in> set theta. 0 \<le> t \<and> t \<le> 1"
  shows "\<exists>ll. calc_ll_flat s x theta nan_no = Inr ll"
proof -
  have "\<forall>p \<in> set (zip x theta). \<exists>l. (\<lambda>(x_m, theta_m). log_mix s x_m theta_m) p = Inr l"
  proof
    fix p
    assume "p \<in> set (zip x theta)"
    then have "(fst p, snd p) \<in> set (zip x theta)"
      by simp
    then have "snd p \<in> set theta"
      by (rule set_zip_rightD)
    with assms(6) have "0 \<le> snd p" "snd p \<le> 1"
      by simp_all
    from log_mix_returns [OF assms(1-4) this, of "fst p"]
    show "\<exists>l. (\<lambda>(x_m, theta_m). log_mix s x_m theta_m) p = Inr l"
      by (simp add: case_prod_beta)
  qed
  then obtain logs where "emap (\<lambda>(x_m, theta_m). log_mix s x_m theta_m) (zip x theta) = Inr logs"
    using emap_Inr_iff [of "\<lambda>(x_m, theta_m). log_mix s x_m theta_m" "zip x theta"] by blast
  with assms(5) show ?thesis
    by (simp add: calc_ll_flat_def)
qed

text \<open>
  Claim C3, at an input where the code raises. The engine has both error rates \<open>0\<close>;
  the observation is \<open>(1, 1, 0)\<close> and the parameter vector \<open>(0, 0, 1)\<close>, a row of the
  data as \<^verbatim>\<open>_rg_init_split\<close> passes it. The mixture of the first entry is \<open>0\<close> and its
  logarithm raises: \<^verbatim>\<open>_calc_ll\<close> has no guard, where \<^verbatim>\<open>log_beta_pdf_short\<close> has one.
\<close>

theorem calc_ll_raises_on_zero_mixture:
  "calc_ll (example_engine\<lparr>alpha_error := 0, beta_error := 0\<rparr>)
     [[Obs1, Obs1, Obs0]] [0, 0, 1] [0] = Inl FloatingPointError"
  by (simp add: calc_ll_def calc_ll_flat_def log_mix_def Bernoulli_FN_def Bernoulli_FP_def
      np_log_def)

subsection \<open>Recording a sample\<close>

lemma set_item_Inr: "set_item xs i v = Inr ys \<longleftrightarrow> i < length xs \<and> ys = xs[i := v]"
  by (auto simp: set_item_def)

lemma set_item_cases:
  "set_item xs i v = (if i < length xs then Inr (xs[i := v]) else Inl IndexError)"
  by (simp add: set_item_def)

lemma length_fold_slots:
  "length (fold (\<lambda>(j, row) slots. slots[j := row]) zs slots) = length slots"
  by (induction zs arbitrary: slots) (auto split: prod.splits)

lemma write_params_Inr:
  assumes "write_params s params step clusters = Inr p"
  shows "step < length params \<and>
         (\<exists>slots. p = params[step := slots] \<and> length slots = length (params ! step))"
  using assms
  by (auto simp: write_params_def ebind_eq_Inr length_fold_slots split: if_splits)

lemma np_index_ok: "0 \<le> c \<Longrightarrow> c < int n \<Longrightarrow> np_index n c = Inr (nat c)"
  by (simp add: np_index_def)

lemma write_params_returns:
  assumes "step < length params"
    and "\<forall>c \<in> set clusters. 0 \<le> c \<and> c < int (length (parameters s)) \<and>
           c < int (length (params ! step))"
  shows "\<exists>p. write_params s params step clusters = Inr p"
proof -
  have "\<forall>c \<in> set clusters. \<exists>y. ebind (np_index (length (parameters s)) c)
          (\<lambda>j. Inr (parameters s ! j)) = Inr y"
    using assms(2) by (simp add: np_index_ok)
  then obtain rows where rows: "emap (\<lambda>c. ebind (np_index (length (parameters s)) c)
          (\<lambda>j. Inr (parameters s ! j))) clusters = Inr rows"
    using emap_Inr_iff [of "\<lambda>c. ebind (np_index (length (parameters s)) c)
          (\<lambda>j. Inr (parameters s ! j))" clusters] by blast
  have "\<forall>c \<in> set clusters. \<exists>y. np_index (length (params ! step)) c = Inr y"
    using assms(2) by (simp add: np_index_ok)
  then obtain idx where idx: "emap (np_index (length (params ! step))) clusters = Inr idx"
    using emap_Inr_iff [of "np_index (length (params ! step))" clusters] by blast
  show ?thesis
    using assms(1) rows idx by (simp add: write_params_def)
qed


lemma record_params_frame:
  assumes "record_params s r step = Inr r'"
  shows "res_ML r' = res_ML r \<and> res_MAP r' = res_MAP r \<and> res_DP_alpha r' = res_DP_alpha r \<and>
         res_assignments r' = res_assignments r \<and> res_burn_in r' = res_burn_in r \<and>
         length (res_params r') = length (res_params r)"
  using assms
  by (auto simp: record_params_def Let_def ebind_eq_Inr dest!: write_params_Inr
      split: sum.splits error.splits if_splits)

lemma record_params_other_steps:
  assumes "record_params s r step = Inr r'" and "i < length (res_params r)" and "i \<noteq> step"
  shows "\<exists>k. res_params r' ! i = res_params r ! i @ replicate k (replicate (muts_total s) 0)"
proof (cases "write_params s (res_params r) step (map fst (cells_per_cluster s))")
  case (Inr p)
  then have "r' = r\<lparr>res_params := p\<rparr>"
    using assms(1) by (simp add: record_params_def)
  moreover from write_params_Inr [OF Inr] assms(3) have "p ! i = res_params r ! i"
    by auto
  ultimately have "res_params r' ! i = res_params r ! i @ replicate 0 (replicate (muts_total s) 0)"
    by simp
  then show ?thesis by blast
next
  case (Inl e)
  let ?cl = "map fst (cells_per_cluster s)"
  from Inl assms(1) obtain m p where m: "list_max ?cl = Inr m"
    and nonneg: "\<not> m - int (shape1 (res_params r)) + 1 < 0"
    and p: "write_params s (map (\<lambda>slots. slots @ replicate (nat (m - int (shape1 (res_params r)) + 1))
              (replicate (muts_total s) 0)) (res_params r)) step ?cl = Inr p"
    and r': "r' = r\<lparr>res_params := p\<rparr>"
    by (auto simp: record_params_def Let_def ebind_eq_Inr split: error.splits if_splits)
  from write_params_Inr [OF p] assms(2,3)
  have "p ! i = res_params r ! i @ replicate (nat (m - int (shape1 (res_params r)) + 1))
              (replicate (muts_total s) 0)"
    by auto
  with r' show ?thesis by auto
qed


lemma record_ML_OK:
  assumes "record_ML AllocOK s ll r step = Inr (r1, step1)"
  shows "step1 = step \<and> step < length (res_ML r1) \<and>
    (\<exists>add. res_ML r1 = (res_ML r @ replicate add 0)[step := ll] \<and>
       res_MAP r1 = res_MAP r @ replicate add 0 \<and>
       res_DP_alpha r1 = res_DP_alpha r @ replicate add 0 \<and>
       res_assignments r1 = res_assignments r @ replicate add (replicate (cells_total s) 0) \<and>
       res_params r1 = res_params r @
          replicate add (replicate (shape1 (res_params r)) (replicate (muts_total s) 0)) \<and>
       res_burn_in r1 = res_burn_in r)"
proof (cases "step < length (res_ML r)")
  case True
  with assms have "step1 = step" and "r1 = r\<lparr>res_ML := (res_ML r)[step := ll]\<rparr>"
    by (auto simp: record_ML_def set_item_cases)
  with True show ?thesis
    by (auto intro!: exI [of _ 0])
next
  case False
  let ?add = "min 200 (length (res_ML r))"
  from False assms
  have "step1 = step" and "step < length (res_ML r) + ?add"
    and "r1 = (fst (extend_results_array AllocOK s r))
            \<lparr>res_ML := (res_ML r @ replicate ?add 0)[step := ll]\<rparr>"
    by (auto simp: record_ML_def set_item_cases extend_results_array_def Let_def
        split: if_splits)
  then show ?thesis
    by (auto simp: extend_results_array_def Let_def intro!: exI [of _ ?add])
qed


lemma write_params_error: "write_params s params step clusters = Inl e \<Longrightarrow> e = IndexError"
proof -
  have np: "np_index n c = Inl e' \<Longrightarrow> e' = IndexError" for n c e'
    by (auto simp: np_index_def split: if_splits)
  have em: "emap f xs = Inl e' \<Longrightarrow> (\<And>x e''. f x = Inl e'' \<Longrightarrow> e'' = IndexError) \<Longrightarrow> e' = IndexError"
    for f :: "int \<Rightarrow> error + 'b" and xs e'
    by (induction xs) (auto simp: ebind_def split: sum.splits)
  assume a: "write_params s params step clusters = Inl e"
  show ?thesis
  proof (cases "emap (\<lambda>c. ebind (np_index (length (parameters s)) c)
                         (\<lambda>j. Inr (parameters s ! j))) clusters")
    case (Inl e')
    then have "e' = IndexError"
      by (rule em) (auto simp: ebind_def split: sum.splits dest: np)
    with a Inl show ?thesis by (simp add: write_params_def)
  next
    case (Inr rows)
    show ?thesis
    proof (cases "step < length params")
      case True
      show ?thesis
      proof (cases "emap (np_index (length (params ! step))) clusters")
        case (Inl e')
        then have "e' = IndexError"
          by (rule em) (auto dest: np)
        with a Inr True Inl show ?thesis by (simp add: write_params_def)
      next
        case r2: (Inr idx)
        with a Inr True show ?thesis by (simp add: write_params_def)
      qed
    next
      case False
      with a Inr show ?thesis by (simp add: write_params_def)
    qed
  qed
qed

lemma list_max_bound:
  assumes "list_max xs = Inr m"
  shows "\<forall>x \<in> set xs. x \<le> m"
proof -
  from assms obtain x r where xs: "xs = x # r" and m: "m = fold max r x"
    by (auto simp: list_max_def split: list.splits)
  have "fold max r x = Max (set (x # r))"
    by (rule Max.set_eq_fold [symmetric])
  with xs m show ?thesis by simp
qed

lemma list_max_returns: "xs \<noteq> [] \<Longrightarrow> \<exists>m. list_max xs = Inr m"
  by (cases xs) (simp_all add: list_max_def)

lemma shape1_rect:
  assumes "\<forall>slots \<in> set ps. length slots = k" and "ps \<noteq> []"
  shows "shape1 ps = k"
  using assms by (cases ps) (simp_all add: shape1_def)

lemma rect_update:
  assumes "list_all (\<lambda>slots. length slots = shape1 ps) ps" and "step < length ps"
    and "length slots' = length (ps ! step)"
  shows "list_all (\<lambda>slots. length slots = shape1 (ps[step := slots'])) (ps[step := slots'])"
proof -
  have all: "\<forall>slots \<in> set ps. length slots = shape1 ps"
    using assms(1) by (simp add: list_all_iff)
  then have "length slots' = shape1 ps"
    using assms(2,3) by simp
  with all have "\<forall>slots \<in> set (ps[step := slots']). length slots = shape1 ps"
    by (auto dest!: set_update_subset_insert [THEN subsetD])
  moreover from assms(2) have "ps[step := slots'] \<noteq> []"
    by auto
  ultimately show ?thesis
    using shape1_rect [of "ps[step := slots']" "shape1 ps"] by (simp add: list_all_iff)
qed

lemma record_params_returns:
  assumes rect: "list_all (\<lambda>slots. length slots = shape1 (res_params r)) (res_params r)"
    and step: "step < length (res_params r)" and rec: "recordable s"
  shows "\<exists>r'. record_params s r step = Inr r' \<and>
    list_all (\<lambda>slots. length slots = shape1 (res_params r')) (res_params r')"
proof -
  let ?cl = "map fst (cells_per_cluster s)"
  let ?ps = "res_params r"
  have keys: "\<forall>c \<in> set ?cl. 0 \<le> c \<and> c < int (length (parameters s))"
    using rec by (simp add: recordable_def list_all_iff)
  have all: "\<forall>slots \<in> set ?ps. length slots = shape1 ?ps"
    using rect by (simp add: list_all_iff)
  show ?thesis
  proof (cases "write_params s ?ps step ?cl")
    case (Inr p)
    from write_params_Inr [OF Inr] obtain slots where
      p: "p = ?ps[step := slots]" and len: "length slots = length (?ps ! step)"
      by blast
    have "list_all (\<lambda>slots. length slots = shape1 p) p"
      unfolding p using rect step len by (rule rect_update)
    with Inr show ?thesis
      by (simp add: record_params_def)
  next
    case (Inl e)
    then have e: "e = IndexError"
      by (rule write_params_error)
    have "\<not> (\<forall>c \<in> set ?cl. 0 \<le> c \<and> c < int (length (parameters s)) \<and>
           c < int (length (?ps ! step)))"
      using write_params_returns [OF step, of ?cl s] Inl by auto
    then obtain c where c: "c \<in> set ?cl" "int (length (?ps ! step)) \<le> c"
      using keys by fastforce
    then have "?cl \<noteq> []" by auto
    then obtain m where m: "list_max ?cl = Inr m"
      using list_max_returns by blast
    have bound: "\<forall>x \<in> set ?cl. x \<le> m"
      using m by (rule list_max_bound)
    have sh: "length (?ps ! step) = shape1 ?ps"
      using all step by simp
    let ?d = "m - int (shape1 ?ps) + 1"
    have dpos: "0 < ?d"
      using bound c sh by fastforce
    let ?padded = "map (\<lambda>slots. slots @ replicate (nat ?d) (replicate (muts_total s) 0)) ?ps"
    have plen: "\<forall>slots \<in> set ?padded. length slots = nat (m + 1)"
      using all dpos by auto
    have pstep: "step < length ?padded"
      using step by simp
    have "length (?padded ! step) = nat (m + 1)"
      using plen pstep nth_mem by blast
    then have "\<forall>c \<in> set ?cl. 0 \<le> c \<and> c < int (length (parameters s)) \<and>
           c < int (length (?padded ! step))"
      using keys bound by fastforce
    from write_params_returns [OF pstep this] obtain p where
      p: "write_params s ?padded step ?cl = Inr p"
      by blast
    from write_params_Inr [OF p] obtain slots where
      pp: "p = ?padded[step := slots]" and len: "length slots = length (?padded ! step)"
      by blast
    have ne: "?padded \<noteq> []"
      using pstep by auto
    have "list_all (\<lambda>slots. length slots = shape1 ?padded) ?padded"
      using plen shape1_rect [OF plen ne] by (simp add: list_all_iff)
    then have "list_all (\<lambda>slots. length slots = shape1 p) p"
      unfolding pp using pstep len by (rule rect_update)
    moreover have "record_params s r step = Inr (r\<lparr>res_params := p\<rparr>)"
      using Inl e m dpos p by (simp add: record_params_def Let_def)
    ultimately show ?thesis
      by simp
  qed
qed


lemma update_MCMC_results_after_ML:
  assumes ml: "record_ML al s ll r step = Inr (r1, step)" and wf: "trace_steps r1 m"
    and step: "step < m" and rec: "recordable s"
  shows "\<exists>r'. update_MCMC_results al s ll lpost r step = Inr r' \<and> trace_steps r' m \<and>
           res_burn_in r' = res_burn_in r1"
proof -
  let ?r2 = "r1\<lparr>res_MAP := (res_MAP r1)[step := lpost],
              res_assignments := (res_assignments r1)[step := assignment s],
              res_DP_alpha := (res_DP_alpha r1)[step := DP_alpha s]\<rparr>"
  have "list_all (\<lambda>slots. length slots = shape1 (res_params ?r2)) (res_params ?r2)"
    and "step < length (res_params ?r2)"
    using wf step by (simp_all add: trace_steps_def)
  from record_params_returns [OF this rec] obtain r' where
    r': "record_params s ?r2 step = Inr r'"
    and rect: "list_all (\<lambda>slots. length slots = shape1 (res_params r')) (res_params r')"
    by blast
  have run: "update_MCMC_results al s ll lpost r step = Inr r'"
    using ml wf step r' by (simp add: update_MCMC_results_def set_item_cases trace_steps_def)
  from record_params_frame [OF r'] wf rect have "trace_steps r' m"
    by (simp add: trace_steps_def)
  moreover from record_params_frame [OF r'] have "res_burn_in r' = res_burn_in r1"
    by simp
  ultimately show ?thesis
    using run by blast
qed

lemma update_MCMC_results_in_range:
  assumes wf: "trace_steps r n" and rec: "recordable s" and step: "step < n"
  shows "\<exists>r'. update_MCMC_results al s ll lpost r step = Inr r' \<and> trace_steps r' n \<and>
           res_burn_in r' = res_burn_in r"
proof -
  let ?r1 = "r\<lparr>res_ML := (res_ML r)[step := ll]\<rparr>"
  have ml: "record_ML al s ll r step = Inr (?r1, step)"
    using wf step by (simp add: record_ML_def set_item_cases trace_steps_def)
  have wf1: "trace_steps ?r1 n"
    using wf by (simp add: trace_steps_def)
  from update_MCMC_results_after_ML [OF ml wf1 step rec] show ?thesis
    by simp
qed

lemma update_MCMC_results_grows:
  assumes wf: "trace_steps r n" and rec: "recordable s"
    and step: "n \<le> step" "step < n + min 200 n"
  shows "\<exists>r'. update_MCMC_results AllocOK s ll lpost r step = Inr r' \<and>
           trace_steps r' (n + min 200 n) \<and> res_burn_in r' = res_burn_in r"
proof -
  let ?add = "min 200 n"
  let ?ext = "fst (extend_results_array AllocOK s r)"
  let ?r1 = "?ext\<lparr>res_ML := (res_ML ?ext)[step := ll]\<rparr>"
  have len: "length (res_ML r) = n"
    using wf by (simp add: trace_steps_def)
  have ml: "record_ML AllocOK s ll r step = Inr (?r1, step)"
    using len step by (simp add: record_ML_def set_item_cases extend_results_array_def Let_def)
  have all: "\<forall>slots \<in> set (res_params r). length slots = shape1 (res_params r)"
    using wf by (simp add: trace_steps_def list_all_iff)
  have npos: "0 < n"
    using step by auto
  then have "res_params r \<noteq> []"
    using wf by (auto simp: trace_steps_def)
  then have sh: "shape1 (res_params r @ xs) = shape1 (res_params r)" for xs
    by (cases "res_params r") (simp_all add: shape1_def)
  have wf1: "trace_steps ?r1 (n + ?add)"
    using wf all by (auto simp: trace_steps_def extend_results_array_def Let_def sh list_all_iff)
  from update_MCMC_results_after_ML [OF ml wf1 step(2) rec] show ?thesis
    by (simp add: extend_results_array_def Let_def)
qed

text \<open>
  What the first \<^verbatim>\<open>try\<close> of \<^verbatim>\<open>update_MCMC_results\<close> leaves, whatever the fate of the
  allocations: the arrays of the trace with zero rows appended (none when nothing was
  extended), and the step the sample is written at. That step is the one asked for
  unless an allocation has failed; then it is the step modulo the length of
  \<^verbatim>\<open>results['ML']\<close>.
\<close>

lemma record_ML_any:
  assumes "record_ML al s ll r step = Inr (r1, step1)"
  shows "step1 < length (res_ML r1) \<and>
    (al = AllocOK \<or> step < length (res_ML r) \<longrightarrow> step1 = step) \<and>
    (al = FailML \<and> length (res_ML r) \<le> step \<longrightarrow>
       step1 = step mod length (res_ML r) \<and> length (res_ML r1) = length (res_ML r)) \<and>
    (\<exists>a1 a2 a3 a4 a5. res_ML r1 = (res_ML r @ replicate a1 0)[step1 := ll] \<and>
       res_MAP r1 = res_MAP r @ replicate a2 0 \<and>
       res_DP_alpha r1 = res_DP_alpha r @ replicate a3 0 \<and>
       res_assignments r1 = res_assignments r @ replicate a4 (replicate (cells_total s) 0) \<and>
       res_params r1 = res_params r @
          replicate a5 (replicate (shape1 (res_params r)) (replicate (muts_total s) 0)) \<and>
       res_burn_in r1 = res_burn_in r)"
proof (cases "step < length (res_ML r)")
  case True
  with assms have "step1 = step" and "r1 = r\<lparr>res_ML := (res_ML r)[step := ll]\<rparr>"
    by (auto simp: record_ML_def set_item_cases)
  with True show ?thesis
    by (auto intro!: exI [of _ 0])
next
  case False
  let ?add = "min 200 (length (res_ML r))"
  show ?thesis
  proof (cases al)
    case AllocOK
    with False assms
    have "step1 = step" and "step < length (res_ML r) + ?add"
      and "r1 = (fst (extend_results_array AllocOK s r))
              \<lparr>res_ML := (res_ML r @ replicate ?add 0)[step := ll]\<rparr>"
      by (auto simp: record_ML_def set_item_cases extend_results_array_def Let_def
          split: if_splits)
    with AllocOK show ?thesis
      by (auto simp: extend_results_array_def Let_def intro!: exI [of _ ?add])
  next
    case FailML
    with False assms
    have "step1 = step mod length (res_ML r)" and "step1 < length (res_ML r)"
      and "r1 = r\<lparr>res_ML := (res_ML r)[step1 := ll]\<rparr>"
      by (auto simp: record_ML_def set_item_cases extend_results_array_def Let_def
          split: if_splits)
    with FailML False show ?thesis
      by (auto intro!: exI [of _ 0])
  next
    case FailMAP
    with False assms
    have "step1 < length (res_ML r) + ?add"
      and "r1 = r\<lparr>res_ML := (res_ML r @ replicate ?add 0)[step1 := ll]\<rparr>"
      by (auto simp: record_ML_def set_item_cases extend_results_array_def Let_def
          split: if_splits)
    with FailMAP False show ?thesis
      by (auto intro!: exI [of _ 0] exI [of _ ?add])
  next
    case FailDP_alpha
    with False assms
    have "step1 < length (res_ML r) + ?add"
      and "r1 = r\<lparr>res_ML := (res_ML r @ replicate ?add 0)[step1 := ll],
                     res_MAP := res_MAP r @ replicate ?add 0\<rparr>"
      by (auto simp: record_ML_def set_item_cases extend_results_array_def Let_def
          split: if_splits)
    with FailDP_alpha False show ?thesis
      by (auto intro!: exI [of _ 0] exI [of _ ?add])
  next
    case FailAssignments
    with False assms
    have "step1 < length (res_ML r) + ?add"
      and "r1 = r\<lparr>res_ML := (res_ML r @ replicate ?add 0)[step1 := ll],
                     res_MAP := res_MAP r @ replicate ?add 0,
                     res_DP_alpha := res_DP_alpha r @ replicate ?add 0\<rparr>"
      by (auto simp: record_ML_def set_item_cases extend_results_array_def Let_def
          split: if_splits)
    with FailAssignments False show ?thesis
      by (auto intro!: exI [of _ 0] exI [of _ ?add])
  next
    case FailParams
    with False assms
    have "step1 < length (res_ML r) + ?add"
      and "r1 = r\<lparr>res_ML := (res_ML r @ replicate ?add 0)[step1 := ll],
                     res_MAP := res_MAP r @ replicate ?add 0,
                     res_DP_alpha := res_DP_alpha r @ replicate ?add 0,
                     res_assignments :=
                       res_assignments r @ replicate ?add (replicate (cells_total s) 0)\<rparr>"
      by (auto simp: record_ML_def set_item_cases extend_results_array_def Let_def
          split: if_splits)
    with FailParams False show ?thesis
      by (auto intro!: exI [of _ 0] exI [of _ ?add])
  qed
qed

lemma record_params_step:
  assumes "record_params s r step = Inr r'"
  shows "step < length (res_params r)"
  using assms
  by (auto simp: record_params_def Let_def ebind_eq_Inr dest!: write_params_Inr
      split: sum.splits error.splits if_splits)

text \<open>
  Claim C9. When \<^verbatim>\<open>update_MCMC_results\<close> returns, the sample is written at one step
  \<open>step1\<close> of the trace, and every other step \<open>i\<close> recorded before still holds its log
  likelihood, log posterior, concentration and assignment, and its parameter snapshot
  followed by zero slots only, whether the call has appended steps
  (\<^verbatim>\<open>_extend_results_array\<close>), padded the cluster axis of \<^verbatim>\<open>'params'\<close>, or neither.
  When every allocation succeeds, or the step lies within the trace, \<open>step1\<close> is the
  step asked for, so that growing the trace loses nothing. When the first allocation
  of \<^verbatim>\<open>_extend_results_array\<close> fails, the trace keeps its length and \<open>step1\<close> is the step
  modulo that length: the sample recorded there before is overwritten.
  \<^verbatim>\<open>_extend_results_array\<close> itself, when it succeeds, leaves the old arrays as the prefixes
  of the new ones.
\<close>

theorem trace_growth_keeps_samples:
  assumes run: "update_MCMC_results al s ll lpost results step = Inr results'"
    and wf: "trace_steps results n"
  shows "(\<exists>step1.
       (al = AllocOK \<or> step < n \<longrightarrow> step1 = step) \<and>
       (al = FailML \<and> n \<le> step \<longrightarrow>
          step1 = step mod n \<and> step1 < n \<and> length (res_ML results') = n) \<and>
       step1 < length (res_ML results') \<and>
       res_ML results' ! step1 = ll \<and> res_MAP results' ! step1 = lpost \<and>
       res_DP_alpha results' ! step1 = DP_alpha s \<and>
       res_assignments results' ! step1 = assignment s \<and>
       (\<forall>i. i < n \<and> i \<noteq> step1 \<longrightarrow>
          i < length (res_ML results') \<and>
          res_ML results' ! i = res_ML results ! i \<and>
          res_MAP results' ! i = res_MAP results ! i \<and>
          res_DP_alpha results' ! i = res_DP_alpha results ! i \<and>
          res_assignments results' ! i = res_assignments results ! i \<and>
          (\<exists>k. res_params results' ! i =
                 res_params results ! i @ replicate k (replicate (muts_total s) 0)))) \<and>
     take n (res_ML (fst (extend_results_array AllocOK s results))) = res_ML results \<and>
     take n (res_MAP (fst (extend_results_array AllocOK s results))) = res_MAP results \<and>
     take n (res_DP_alpha (fst (extend_results_array AllocOK s results))) = res_DP_alpha results \<and>
     take n (res_assignments (fst (extend_results_array AllocOK s results))) =
       res_assignments results \<and>
     take n (res_params (fst (extend_results_array AllocOK s results))) = res_params results \<and>
     snd (extend_results_array AllocOK s results) = None"
proof -
  from run obtain r1 step1 arr_MAP arr_assignments arr_DP_alpha where
    ml: "record_ML al s ll results step = Inr (r1, step1)"
    and a1: "set_item (res_MAP r1) step1 lpost = Inr arr_MAP"
    and a2: "set_item (res_assignments r1) step1 (assignment s) = Inr arr_assignments"
    and a3: "set_item (res_DP_alpha r1) step1 (DP_alpha s) = Inr arr_DP_alpha"
    and rp: "record_params s (r1\<lparr>res_MAP := arr_MAP, res_assignments := arr_assignments,
               res_DP_alpha := arr_DP_alpha\<rparr>) step1 = Inr results'"
    by (auto simp: update_MCMC_results_def ebind_eq_Inr split: prod.splits)
  have lens: "length (res_ML results) = n" "length (res_MAP results) = n"
    "length (res_DP_alpha results) = n" "length (res_assignments results) = n"
    "length (res_params results) = n"
    using wf by (simp_all add: trace_steps_def)
  from record_ML_any [OF ml] obtain b1 b2 b3 b4 b5 where
    in1: "step1 < length (res_ML r1)"
    and ok: "al = AllocOK \<or> step < n \<longrightarrow> step1 = step"
    and wrap: "al = FailML \<and> n \<le> step \<longrightarrow> step1 = step mod n \<and> length (res_ML r1) = n"
    and eqML: "res_ML r1 = (res_ML results @ replicate b1 0)[step1 := ll]"
    and eqMAP: "res_MAP r1 = res_MAP results @ replicate b2 0"
    and eqDP: "res_DP_alpha r1 = res_DP_alpha results @ replicate b3 0"
    and eqAS: "res_assignments r1 =
               res_assignments results @ replicate b4 (replicate (cells_total s) 0)"
    and eqPA: "res_params r1 = res_params results @
          replicate b5 (replicate (shape1 (res_params results)) (replicate (muts_total s) 0))"
    unfolding lens by blast
  note fr = record_params_frame [OF rp]
  have w1: "al = FailML \<and> n \<le> step \<longrightarrow>
          step1 = step mod n \<and> step1 < n \<and> length (res_ML results') = n"
    using wrap in1 fr by auto
  have w2: "step1 < length (res_ML results')"
    using in1 fr by simp
  have w3: "res_ML results' ! step1 = ll"
    using in1 fr by (simp add: eqML)
  have w4: "res_MAP results' ! step1 = lpost"
    using fr a1 by (auto simp: set_item_Inr)
  have w5: "res_DP_alpha results' ! step1 = DP_alpha s"
    using fr a3 by (auto simp: set_item_Inr)
  have w6: "res_assignments results' ! step1 = assignment s"
    using fr a2 by (auto simp: set_item_Inr)
  have keep: "i < length (res_ML results') \<and>
          res_ML results' ! i = res_ML results ! i \<and>
          res_MAP results' ! i = res_MAP results ! i \<and>
          res_DP_alpha results' ! i = res_DP_alpha results ! i \<and>
          res_assignments results' ! i = res_assignments results ! i \<and>
          (\<exists>k. res_params results' ! i =
                 res_params results ! i @ replicate k (replicate (muts_total s) 0))"
    if i: "i < n" "i \<noteq> step1" for i
  proof -
    have "i < length (res_ML results')"
      using fr eqML lens i by simp
    moreover have "res_ML results' ! i = res_ML results ! i"
      using fr eqML lens i by (simp add: nth_append)
    moreover have "res_MAP results' ! i = res_MAP results ! i"
      using fr a1 eqMAP lens i by (auto simp: set_item_Inr nth_append)
    moreover have "res_DP_alpha results' ! i = res_DP_alpha results ! i"
      using fr a3 eqDP lens i by (auto simp: set_item_Inr nth_append)
    moreover have "res_assignments results' ! i = res_assignments results ! i"
      using fr a2 eqAS lens i by (auto simp: set_item_Inr nth_append)
    moreover have "\<exists>k. res_params results' ! i =
              res_params results ! i @ replicate k (replicate (muts_total s) 0)"
    proof -
      have "i < length (res_params (r1\<lparr>res_MAP := arr_MAP, res_assignments := arr_assignments,
                 res_DP_alpha := arr_DP_alpha\<rparr>))"
        using eqPA lens i by simp
      from record_params_other_steps [OF rp this] i eqPA lens show ?thesis
        by (simp add: nth_append)
    qed
    ultimately show ?thesis
      by blast
  qed
  have pre: "take n (res_ML (fst (extend_results_array AllocOK s results))) = res_ML results"
    "take n (res_MAP (fst (extend_results_array AllocOK s results))) = res_MAP results"
    "take n (res_DP_alpha (fst (extend_results_array AllocOK s results))) =
           res_DP_alpha results"
    "take n (res_assignments (fst (extend_results_array AllocOK s results))) =
       res_assignments results"
    "take n (res_params (fst (extend_results_array AllocOK s results))) = res_params results"
    "snd (extend_results_array AllocOK s results) = None"
    using lens by (simp_all add: extend_results_array_def Let_def)
  from ok w1 w2 w3 w4 w5 w6 keep have "\<exists>step1.
       (al = AllocOK \<or> step < n \<longrightarrow> step1 = step) \<and>
       (al = FailML \<and> n \<le> step \<longrightarrow>
          step1 = step mod n \<and> step1 < n \<and> length (res_ML results') = n) \<and>
       step1 < length (res_ML results') \<and>
       res_ML results' ! step1 = ll \<and> res_MAP results' ! step1 = lpost \<and>
       res_DP_alpha results' ! step1 = DP_alpha s \<and>
       res_assignments results' ! step1 = assignment s \<and>
       (\<forall>i. i < n \<and> i \<noteq> step1 \<longrightarrow>
          i < length (res_ML results') \<and>
          res_ML results' ! i = res_ML results ! i \<and>
          res_MAP results' ! i = res_MAP results ! i \<and>
          res_DP_alpha results' ! i = res_DP_alpha results ! i \<and>
          res_assignments results' ! i = res_assignments results ! i \<and>
          (\<exists>k. res_params results' ! i =
                 res_params results ! i @ replicate k (replicate (muts_total s) 0)))"
    by blast
  with pre show ?thesis
    by blast
qed

theorem trace_growth_keeps_samples_witness:
  "\<exists>results'.
     update_MCMC_results AllocOK
       (example_engine\<lparr>assignment := [0, 0, 2, 2], cells_per_cluster := [(0, 2), (2, 2)]\<rparr>)
       (- 4) (- 6)
       \<lparr>res_ML = [- 3], res_MAP = [- 5], res_DP_alpha = [2], res_assignments = [[0, 0, 0, 0]],
        res_params = [[[1 / 2, 1 / 2, 1 / 2]]], res_burn_in = None\<rparr> 1 = Inr results' \<and>
     res_ML results' ! 1 = - 4 \<and>
     res_ML results' ! 0 = - 3 \<and> res_MAP results' ! 0 = - 5 \<and>
     res_DP_alpha results' ! 0 = 2 \<and> res_assignments results' ! 0 = [0, 0, 0, 0] \<and>
     (\<exists>k. res_params results' ! 0 = [[1 / 2, 1 / 2, 1 / 2]] @ replicate k [0, 0, 0])"
proof -
  let ?s = "example_engine\<lparr>assignment := [0, 0, 2, 2], cells_per_cluster := [(0, 2), (2, 2)]\<rparr>"
  let ?r = "\<lparr>res_ML = [- 3], res_MAP = [- 5], res_DP_alpha = [2],
        res_assignments = [[0, 0, 0, 0]],
        res_params = [[[1 / 2, 1 / 2, 1 / 2]]], res_burn_in = None\<rparr>"
  have wf: "trace_steps ?r 1"
    by (simp add: trace_steps_def shape1_def)
  have rec: "recordable ?s"
    by (simp add: recordable_def example_engine_def)
  from update_MCMC_results_grows [OF wf rec, of 1 "- 4" "- 6"] obtain results' where
    run: "update_MCMC_results AllocOK ?s (- 4) (- 6) ?r 1 = Inr results'"
    by auto
  have M: "muts_total ?s = 3"
    by (simp add: example_engine_def)
  from trace_growth_keeps_samples [OF run wf] obtain step1 where
    st: "AllocOK = AllocOK \<or> (1::nat) < 1 \<longrightarrow> step1 = 1"
    and wr: "res_ML results' ! step1 = - 4"
    and keep: "\<forall>i. i < 1 \<and> i \<noteq> step1 \<longrightarrow>
          i < length (res_ML results') \<and>
          res_ML results' ! i = res_ML ?r ! i \<and>
          res_MAP results' ! i = res_MAP ?r ! i \<and>
          res_DP_alpha results' ! i = res_DP_alpha ?r ! i \<and>
          res_assignments results' ! i = res_assignments ?r ! i \<and>
          (\<exists>k. res_params results' ! i =
                 res_params ?r ! i @ replicate k (replicate (muts_total ?s) 0))"
    by blast
  from st have s1: "step1 = 1"
    by simp
  from keep [rule_format, of 0] s1 M
  have "res_ML results' ! 0 = - 3 \<and> res_MAP results' ! 0 = - 5 \<and>
     res_DP_alpha results' ! 0 = 2 \<and> res_assignments results' ! 0 = [0, 0, 0, 0] \<and>
     (\<exists>k. res_params results' ! 0 = [[1 / 2, 1 / 2, 1 / 2]] @ replicate k [0, 0, 0])"
    by (simp add: numeral_3_eq_3)
  with run wr s1 show ?thesis
    by blast
qed

text \<open>
  The same call when the first allocation fails: the trace has one step, the sample
  of step \<open>1\<close> is written at step \<open>1 mod 1 = 0\<close>, and the sample recorded at step \<open>0\<close>
  (log likelihood \<open>-3\<close>, log posterior \<open>-5\<close>, all cells in cluster \<open>0\<close>) is gone.
\<close>

theorem trace_growth_overwrite_counterexample:
  "update_MCMC_results FailML
       (example_engine\<lparr>assignment := [0, 0, 2, 2], cells_per_cluster := [(0, 2), (2, 2)]\<rparr>)
       (- 4) (- 6)
       \<lparr>res_ML = [- 3], res_MAP = [- 5], res_DP_alpha = [2], res_assignments = [[0, 0, 0, 0]],
        res_params = [[[1 / 2, 1 / 2, 1 / 2]]], res_burn_in = None\<rparr> 1 =
     Inr \<lparr>res_ML = [- 4], res_MAP = [- 6], res_DP_alpha = [2],
          res_assignments = [[0, 0, 2, 2]],
          res_params = [[[1 / 2, 1 / 2, 1 / 2], [0, 0, 0], [0, 0, 0]]], res_burn_in = None\<rparr>"
  by (simp add: update_MCMC_results_def record_ML_def set_item_def extend_results_array_def
      record_params_def write_params_def np_index_def list_max_def shape1_def
      example_engine_def Let_def numeral_2_eq_2 numeral_3_eq_3)

subsection \<open>The run with a fixed number of steps\<close>

lemma init_MCMC_results_returns:
  assumes "recordable s" and "0 < steps"
  shows "\<exists>r. init_MCMC_results al s ll lpost steps = Inr r \<and> trace_steps r (nat steps) \<and>
           res_burn_in r = None"
proof -
  let ?n = "nat steps"
  let ?r0 = "\<lparr>res_ML = replicate ?n 0, res_MAP = replicate ?n 0,
              res_DP_alpha = replicate ?n 0,
              res_assignments = replicate ?n (replicate (cells_total s) 0),
              res_params = replicate ?n [replicate (muts_total s) 0],
              res_burn_in = None\<rparr>"
  have n: "0 < ?n"
    using assms(2) by simp
  then have "shape1 (replicate ?n [replicate (muts_total s) (0::real)]) = 1"
    by (cases ?n) (simp_all add: shape1_def)
  then have wf: "trace_steps ?r0 ?n"
    by (simp add: trace_steps_def list_all_iff)
  from update_MCMC_results_in_range [OF wf assms(1) n, of al ll lpost] assms(2)
  show ?thesis
    by (simp add: init_MCMC_results_def Let_def)
qed

lemma MCMC_steps_loop_returns:
  assumes step_ok: "\<forall>i t. recordable t \<longrightarrow> (\<exists>t'. do_step i t = Inr t' \<and> recordable t')"
    and "steps div 10 \<noteq> 0" and "\<forall>i \<in> set idx. i < n"
    and "recordable s" and "trace_steps r n"
  shows "\<exists>s' r'. MCMC_steps_loop do_step lls al silent steps idx s r = Inr (s', r') \<and>
           recordable s' \<and> trace_steps r' n \<and> res_burn_in r' = res_burn_in r"
  using assms(3-)
proof (induction idx arbitrary: s r)
  case Nil
  then show ?case by simp
next
  case (Cons step rest)
  let ?s1 = "if step mod (steps div 10) = 0 \<and> \<not> silent then stdout_MCMC_progress s else s"
  have "recordable ?s1"
    using Cons.prems(2) by (simp add: stdout_MCMC_progress_def recordable_def)
  with step_ok obtain s2 where
    s2: "do_step step ?s1 = Inr s2" and rec2: "recordable s2"
    by blast
  have "step < n"
    using Cons.prems(1) by simp
  from update_MCMC_results_in_range [OF Cons.prems(3) rec2 this,
      of "al step" "fst (lls s2)" "snd (lls s2)"]
  obtain r2 where r2: "update_MCMC_results (al step) s2 (fst (lls s2)) (snd (lls s2)) r step = Inr r2"
    and wf2: "trace_steps r2 n" and b2: "res_burn_in r2 = res_burn_in r"
    by blast
  have "\<forall>i \<in> set rest. i < n"
    using Cons.prems(1) by simp
  from Cons.IH [OF this rec2 wf2] b2 obtain s' r' where
    "MCMC_steps_loop do_step lls al silent steps rest s2 r2 = Inr (s', r')"
    "recordable s'" "trace_steps r' n" "res_burn_in r' = res_burn_in r"
    by auto
  then show ?case
    using assms(2) s2 r2 by (simp add: Let_def)
qed

lemma run_MCMC_steps_returns:
  assumes step_ok: "\<forall>i t. recordable t \<longrightarrow> (\<exists>t'. do_step i t = Inr t' \<and> recordable t')"
    and "recordable s" and "S = 0 \<or> 9 \<le> S"
  shows "\<exists>s' r. run_MCMC_steps do_step lls al s S burn_in silent = Inr (s', r) \<and>
           trace_steps r (nat (S + 1)) \<and>
           res_burn_in r = Some (py_int (real_of_int (S + 1) * burn_in))"
proof -
  have pos: "0 < S + 1"
    using assms(3) by auto
  from init_MCMC_results_returns [OF assms(2) pos, of "al 0" "fst (lls s)" "snd (lls s)"]
  obtain r0 where r0: "init_MCMC_results (al 0) s (fst (lls s)) (snd (lls s)) (S + 1) = Inr r0"
    and wf0: "trace_steps r0 (nat (S + 1))"
    by blast
  have "\<exists>s' r'. MCMC_steps_loop do_step lls al silent (nat (S + 1)) [1..<nat (S + 1)] s r0 =
            Inr (s', r') \<and> recordable s' \<and> trace_steps r' (nat (S + 1))"
  proof (cases "S = 0")
    case True
    with wf0 assms(2) show ?thesis by simp
  next
    case False
    with assms(3) have "nat (S + 1) div 10 \<noteq> 0"
      by (simp add: div_eq_0_iff)
    from MCMC_steps_loop_returns [OF step_ok this _ assms(2) wf0,
        where idx = "[1..<nat (S + 1)]" and lls = lls and al = al and silent = silent]
    show ?thesis by auto
  qed
  then obtain s' r' where
    "MCMC_steps_loop do_step lls al silent (nat (S + 1)) [1..<nat (S + 1)] s r0 = Inr (s', r')"
    "trace_steps r' (nat (S + 1))"
    by blast
  with r0 show ?thesis
    by (simp add: run_MCMC_steps_def Let_def trace_steps_def)
qed


lemma run_MCMC_steps_modulus_by_zero:
  assumes "recordable s" and "1 \<le> S" and "S \<le> 8"
  shows "run_MCMC_steps do_step lls al s S burn_in silent = Inl ZeroDivisionError"
proof -
  have pos: "0 < S + 1"
    using assms(2) by simp
  from init_MCMC_results_returns [OF assms(1) pos, of "al 0" "fst (lls s)" "snd (lls s)"]
  obtain r0 where r0: "init_MCMC_results (al 0) s (fst (lls s)) (snd (lls s)) (S + 1) = Inr r0"
    by blast
  have "1 < nat (S + 1)"
    using assms(2) by simp
  then have idx: "[1..<nat (S + 1)] = 1 # [Suc 1..<nat (S + 1)]"
    by (simp add: upt_conv_Cons)
  have "nat (S + 1) div 10 = 0"
    using assms(3) by simp
  then have "MCMC_steps_loop do_step lls al silent (nat (S + 1)) [1..<nat (S + 1)] s r0 =
           Inl ZeroDivisionError"
    unfolding idx by simp
  with r0 show ?thesis
    by (simp add: run_MCMC_steps_def Let_def)
qed

lemma recordable_example: "recordable example_engine"
  by (simp add: recordable_def example_engine_def)

text \<open>
  Claim C10, as the code has it: for a step count between \<open>1\<close> and \<open>8\<close> the run
  raises \<^verbatim>\<open>ZeroDivisionError\<close> in the progress test of its first iteration, whatever
  \<open>silent\<close> is, before any step is done; nothing is returned.
\<close>

theorem run_MCMC_steps_few_steps_raise:
  assumes "recordable s" and "1 \<le> S" and "S \<le> 8"
  shows "run_MCMC_steps do_step lls al s S burn_in True = Inl ZeroDivisionError \<and>
         run_MCMC_steps do_step lls al s S burn_in False = Inl ZeroDivisionError"
  using assms by (simp add: run_MCMC_steps_modulus_by_zero)

theorem run_MCMC_steps_few_steps_raise_witness:
  "run_MCMC_steps (\<lambda>i t. Inr t) (\<lambda>t. (0, 0)) (\<lambda>i. AllocOK) example_engine 3 (1 / 2) True =
     Inl ZeroDivisionError \<and>
   run_MCMC_steps (\<lambda>i t. Inr t) (\<lambda>t. (0, 0)) (\<lambda>i. AllocOK) example_engine 3 (1 / 2) False =
     Inl ZeroDivisionError"
  using run_MCMC_steps_few_steps_raise [OF recordable_example, of 3] by simp

theorem run_MCMC_steps_zero_steps_counterexample:
  "\<not> isl (run_MCMC_steps (\<lambda>i t. Inr t) (\<lambda>t. (0, 0)) (\<lambda>i. AllocOK) example_engine 0 (1 / 2) False) \<and>
   length (res_ML (snd (projr
     (run_MCMC_steps (\<lambda>i t. Inr t) (\<lambda>t. (0, 0)) (\<lambda>i. AllocOK) example_engine 0 (1 / 2) False)))) = 1"
proof -
  have "\<forall>i t. recordable t \<longrightarrow> (\<exists>t'. (Inr t :: error + crp) = Inr t' \<and> recordable t')"
    by simp
  from run_MCMC_steps_returns [OF this recordable_example, of 0 "\<lambda>t. (0, 0)" "\<lambda>i. AllocOK" "1 / 2" False]
  show ?thesis
    by (auto simp: trace_steps_def)
qed

text \<open>
  Claim C2, at an input where the code raises: a run of five steps with the burn-in
  fraction \<open>0.5\<close> returns no trace, where the claim has a trace of length six.
\<close>

theorem run_MCMC_steps_five_steps_raises:
  "run_MCMC_steps (\<lambda>i t. Inr t) (\<lambda>t. (0, 0)) (\<lambda>i. AllocOK) example_engine 5 (1 / 2) False =
     Inl ZeroDivisionError"
  using recordable_example by (simp add: run_MCMC_steps_modulus_by_zero)

text \<open>
  From nine steps on (and for no step at all) the run returns what the claim says,
  provided every \<^verbatim>\<open>do_MCMC_step\<close> returns a state that can be recorded.
\<close>

lemma run_MCMC_steps_trace_length:
  assumes "\<forall>i t. recordable t \<longrightarrow> (\<exists>t'. do_step i t = Inr t' \<and> recordable t')"
    and "recordable s" and "S = 0 \<or> 9 \<le> S"
  shows "\<exists>s' r. run_MCMC_steps do_step lls al s S burn_in silent = Inr (s', r) \<and>
           length (res_ML r) = nat (S + 1) \<and> length (res_MAP r) = nat (S + 1) \<and>
           length (res_DP_alpha r) = nat (S + 1) \<and> length (res_assignments r) = nat (S + 1) \<and>
           length (res_params r) = nat (S + 1) \<and>
           res_burn_in r = Some (py_int (real_of_int (S + 1) * burn_in))"
  using run_MCMC_steps_returns [OF assms, of lls al burn_in silent]
  by (auto simp: trace_steps_def)

lemma run_MCMC_steps_hundred:
  "\<exists>s' r. run_MCMC_steps (\<lambda>i t. Inr t) (\<lambda>t. (0, 0)) (\<lambda>i. AllocOK) example_engine 100 (1 / 2) False =
      Inr (s', r) \<and> length (res_ML r) = 101 \<and> length (res_assignments r) = 101 \<and>
      res_burn_in r = Some 50"
proof -
  have "\<forall>i t. recordable t \<longrightarrow> (\<exists>t'. (Inr t :: error + crp) = Inr t' \<and> recordable t')"
    by simp
  from run_MCMC_steps_trace_length [OF this recordable_example, of 100 "\<lambda>t. (0, 0)" "\<lambda>i. AllocOK" "1 / 2" False]
  have "\<exists>s' r. run_MCMC_steps (\<lambda>i t. Inr t) (\<lambda>t. (0, 0)) (\<lambda>i. AllocOK) example_engine 100 (1 / 2) False =
      Inr (s', r) \<and> length (res_ML r) = 101 \<and> length (res_assignments r) = 101 \<and>
      res_burn_in r = Some (py_int (101 * (1 / 2)))"
    by (simp del: ex_simps) blast
  moreover have "py_int (101 * (1 / 2)) = 50"
    by (simp add: py_int_def)
  ultimately show ?thesis
    by simp
qed

subsection \<open>Counting the cells of a cluster\<close>











subsection \<open>Allocation of a cluster id\<close>






subsection \<open>The Gibbs sweep\<close>





subsection \<open>What a consistent state gives\<close>



subsection \<open>Moving cells from one cluster to another\<close>








subsection \<open>The merge move\<close>


subsection \<open>The split move\<close>

lemma draw_split_cluster_Inr:
  "draw_split_cluster asg draws = Inr c \<Longrightarrow> length (argwhere asg c) \<noteq> 1"
  by (induction draws) (auto split: if_splits)





subsection \<open>The invariant of the cluster state\<close>









subsection \<open>The moves on the example\<close>

lemma upt4: "[0..<4] = [0, 1, 2, 3]"
  by (simp add: upt_rec)

lemma merge_example:
  "map_sum id (\<lambda>s. (assignment s, cells_per_cluster s))
     (do_merge_move
            \<lparr>mg_cl_i = 2, mg_cl_j = 0, mg_accept = True, mg_params = [1 / 3, 1 / 3, 1 / 3],
             mg_counted = (1, 2)\<rparr>
            (example_engine\<lparr>assignment := [0, 0, 2, 2], cells_per_cluster := [(0, 2), (2, 2)]\<rparr>)) =
   Inr ([2, 2, 2, 2], [(2, 4)])"
  by (simp add: do_merge_move_def example_engine_def dict_get_def dict_del_def argwhere_def
      set_parameters_def np_index_def assign_cells_def Let_def upt4)

lemma split_example:
  "map_sum id (\<lambda>s. (assignment s, cells_per_cluster s))
     (do_split_move
            \<lparr>sp_clusters = [0], sp_obs_i = 1, sp_obs_j = 3, sp_accept = True,
             sp_assignment = [1, 0], sp_params = ([1 / 4, 1 / 4, 1 / 4], [3 / 4, 3 / 4, 3 / 4]),
             sp_counted = (2, 1)\<rparr> example_engine) =
   Inr ([1, 0, 0, 1], [(0, 2), (1, 2)])"
  by (simp add: do_split_move_def example_engine_def dict_get_def argwhere_def
      get_empty_cluster_def free_clusters_def set_parameters_def np_index_def assign_cells_def
      Let_def upt4 upt_rec [of 0 2])


lemma Gibbs_cell_example_1:
  "map_sum id (\<lambda>s. (assignment s, cells_per_cluster s))
     (Gibbs_cell (\<lambda>i cands. last cands) (\<lambda>i. [1 / 2, 1 / 2, 1 / 2]) example_engine 2) =
   Inr ([0, 0, 1, 0], [(0, 3), (1, 1)])"
  by (simp add: Gibbs_cell_def example_engine_def dict_get_def
      init_new_cluster_def get_empty_cluster_def free_clusters_def Let_def upt4)

lemma Gibbs_cell_example_2:
  "map_sum id (\<lambda>s. (assignment s, cells_per_cluster s))
     (Gibbs_cell (\<lambda>i cands. hd cands) (\<lambda>i. [1 / 2, 1 / 2, 1 / 2])
        (example_engine\<lparr>assignment := [0, 0, 2, 2], cells_per_cluster := [(0, 2), (2, 2)]\<rparr>) 3) =
   Inr ([0, 0, 2, 0], [(0, 3), (2, 1)])"
  by (simp add: Gibbs_cell_def example_engine_def dict_get_def Let_def)

subsection \<open>The ids of the clusters\<close>





end
